theory Spec2Isabelle
  imports Complex_Main
begin

section \<open>Values exchanged with the inbox and with the helpdesk\<close>

text \<open>
  The server builds its replies as JavaScript object literals. A reply is kept here as
  the value it is in the program: an object is the list of its properties in the order of
  the literal, and a property whose expression evaluated to \<open>undefined\<close> is still a
  property of the object.
\<close>

datatype json =
    JUndefined
  | JNull
  | JBool bool
  | JNum int
  | JStr string
  | JArr "json list"
  | JObj "(string \<times> json) list"

text \<open>Property access \<open>o.k\<close> on an object; a missing property reads as \<open>undefined\<close>.\<close>

fun jget :: "json \<Rightarrow> string \<Rightarrow> json" where
  "jget (JObj kvs) k = (case map_of kvs k of Some v \<Rightarrow> v | None \<Rightarrow> JUndefined)"
| "jget _ k = JUndefined"

text \<open>The elements of an array value (no elements for anything else).\<close>

fun elems :: "json \<Rightarrow> json list" where
  "elems (JArr xs) = xs"
| "elems _ = []"

text \<open>Decimal rendering of a number inside a template literal.\<close>

definition digit_char :: "nat \<Rightarrow> char" where
  "digit_char n = ''0123456789'' ! n"

fun string_of_nat :: "nat \<Rightarrow> string" where
  "string_of_nat n = (if n < 10 then [digit_char n]
     else string_of_nat (n div 10) @ [digit_char (n mod 10)])"

declare string_of_nat.simps [simp del]

text \<open>A helpdesk ticket as the list endpoints return it.\<close>

record ticket =
  ticket_id :: nat
  subject :: string
  created_at :: string

text \<open>
  \<open>Array.prototype.slice(start, end)\<close> for non-negative indices: both ends are clamped
  to the length, and an end before the start gives the empty array.
\<close>

definition slice :: "'a list \<Rightarrow> nat \<Rightarrow> nat \<Rightarrow> 'a list" where
  "slice xs start stop = take (stop - start) (drop start xs)"

section \<open>Pagination state\<close>

text \<open>
  \<open>app.locals.homePageState\<close> and \<open>app.locals.mergePageState\<close>: the tickets of one
  upstream fetch, how many of them have been revealed, and whether a load-more button is
  offered.
\<close>

record page_state =
  customerEmail :: string
  currentOffset :: nat
  allTickets :: "ticket list"
  hasMore :: bool

text \<open>What \<open>app.locals\<close> holds between requests.\<close>

record app_locals =
  homePageState :: "page_state option"
  mergePageState :: "page_state option"
  selectedTicketId :: "string option"
  contextEmail :: "string option"

definition fresh_locals :: app_locals where
  "fresh_locals = \<lparr>homePageState = None, mergePageState = None,
     selectedTicketId = None, contextEmail = None\<rparr>"

text \<open>An upstream call that threw (the axios error, or an exception of the code itself).\<close>

datatype error =
    Transport
  | HttpStatus nat
  | Thrown string

subsection \<open>Creation at \<open>/api/initialize\<close>\<close>

text \<open>
  The state is first stored empty, then the first twenty tickets are fetched; when the
  fetch throws, the handler's catch block replies with an error canvas and the empty
  state stays. Otherwise the offset is set to five and the first five tickets are shown.
\<close>

definition initialize_state :: "string \<Rightarrow> error + ticket list \<Rightarrow> page_state" where
  "initialize_state email fetched =
     (let st0 = \<lparr>customerEmail = email, currentOffset = 0, allTickets = [], hasMore = True\<rparr>
      in case fetched of
           Inl e \<Rightarrow> st0
         | Inr tickets \<Rightarrow>
             st0\<lparr>allTickets := tickets, currentOffset := 5, hasMore := (length tickets > 5)\<rparr>)"

definition initialize_window :: "error + ticket list \<Rightarrow> ticket list" where
  "initialize_window fetched =
     (case fetched of Inl e \<Rightarrow> [] | Inr tickets \<Rightarrow> slice tickets 0 5)"

subsection \<open>Creation at \<open>add_to_existing_ticket\<close>\<close>

text \<open>
  The merge page stores the fetched tickets only when there is at least one; with an empty
  fetch the state keeps offset zero, and with a failed fetch the catch block replies while
  the empty state stays.
\<close>

definition add_to_existing_state :: "string \<Rightarrow> error + ticket list \<Rightarrow> page_state" where
  "add_to_existing_state email fetched =
     (let st0 = \<lparr>customerEmail = email, currentOffset = 0, allTickets = [], hasMore = True\<rparr>
      in case fetched of
           Inl e \<Rightarrow> st0
         | Inr tickets \<Rightarrow>
             if length tickets > 0
             then st0\<lparr>allTickets := tickets, currentOffset := 5, hasMore := (length tickets > 5)\<rparr>
             else st0)"

definition add_to_existing_window :: "error + ticket list \<Rightarrow> ticket list" where
  "add_to_existing_window fetched =
     (case fetched of Inl e \<Rightarrow> []
      | Inr tickets \<Rightarrow> if length tickets > 0 then slice tickets 0 5 else [])"

subsection \<open>The load-more advance\<close>

text \<open>
  Both load-more branches compute the same thing on their state: the window from the
  current offset to at most five further, taken from the stored list, and the state with
  the offset moved to the end of that window.
\<close>

definition load_more_window :: "page_state \<Rightarrow> ticket list" where
  "load_more_window st =
     (let startIndex = currentOffset st;
          endIndex = min (startIndex + 5) (length (allTickets st))
      in slice (allTickets st) startIndex endIndex)"

definition load_more_advance :: "page_state \<Rightarrow> page_state" where
  "load_more_advance st =
     (let startIndex = currentOffset st;
          endIndex = min (startIndex + 5) (length (allTickets st))
      in st\<lparr>currentOffset := endIndex, hasMore := (endIndex < length (allTickets st))\<rparr>)"

section \<open>The reply of one request\<close>

text \<open>
  Each \<open>POST /api/submit\<close> owns a flag \<open>responseSent\<close>, a nine-second timer and the
  response object. \<open>replies\<close> lists the bodies handed to \<open>res.json\<close> for this request, in
  order; \<open>timerPending\<close> says that the timer has neither fired nor been cleared.
\<close>

record responder =
  responseSent :: bool
  timerPending :: bool
  replies :: "json list"

definition new_responder :: responder where
  "new_responder = \<lparr>responseSent = False, timerPending = True, replies = []\<rparr>"

text \<open>A direct \<open>res.json(body)\<close>: neither the flag nor the timer is touched.\<close>

definition res_json :: "json \<Rightarrow> responder \<Rightarrow> responder" where
  "res_json body r = r\<lparr>replies := replies r @ [body]\<rparr>"

text \<open>The guarded helper \<open>sendResponse\<close>.\<close>

definition sendResponse :: "json \<Rightarrow> responder \<Rightarrow> responder" where
  "sendResponse responseData r =
     (if \<not> responseSent r
      then (res_json responseData r)\<lparr>responseSent := True, timerPending := False\<rparr>
      else r)"

text \<open>
  The timer's callback. It sets the flag on entry, builds the home page (awaiting a ticket
  fetch when an email is known), and then sends that page under a second test of the
  flag. Nothing in the program ever resets the flag, so the callback is modelled in one
  step; \<open>fallback\<close> is the page it built.
\<close>

definition timeout_callback :: "json \<Rightarrow> responder \<Rightarrow> responder" where
  "timeout_callback fallback r =
     (if \<not> responseSent r
      then (let r1 = r\<lparr>responseSent := True\<rparr>
            in if \<not> responseSent r1
               then (res_json fallback r1)\<lparr>responseSent := True\<rparr>
               else r1)
      else r)"

definition timer_fires :: "json \<Rightarrow> responder \<Rightarrow> responder" where
  "timer_fires fallback r =
     (if timerPending r then timeout_callback fallback (r\<lparr>timerPending := False\<rparr>) else r)"

text \<open>
  What happens during a request, in order. \<open>Await\<close> is a suspension point (an awaited
  upstream call), \<open>TimerFires\<close> is the nine-second timer running its callback with the
  page it builds, \<open>Track\<close> is a write to the in-progress tracker, and \<open>PostIntercomNote\<close>
  is the call of the completion notifier.
\<close>

datatype upstream =
    ListTickets string nat
  | GetMailboxes
  | GetTicketFields
  | GetTicketField nat
  | FetchConversation string
  | DownloadFile string
  | CreateTicket
  | AddTicketNote string

datatype action =
    Await upstream
  | SendResponse json
  | ResJson json
  | TimerFires json
  | Track string bool
  | PostIntercomNote string string

fun perform :: "responder \<Rightarrow> action \<Rightarrow> responder" where
  "perform r (SendResponse body) = sendResponse body r"
| "perform r (ResJson body) = res_json body r"
| "perform r (TimerFires fallback) = timer_fires fallback r"
| "perform r (Await u) = r"
| "perform r (Track email inProgress) = r"
| "perform r (PostIntercomNote c body) = r"

fun is_await :: "action \<Rightarrow> bool" where
  "is_await (Await u) = True"
| "is_await _ = False"

definition upstream_calls :: "action list \<Rightarrow> action list" where
  "upstream_calls acts = filter is_await acts"

section \<open>The load-more branches of \<open>/api/submit\<close>\<close>

definition submit_action :: json where
  "submit_action = JObj [(''type'', JStr ''submit'')]"

definition canvas :: "json list \<Rightarrow> json" where
  "canvas components =
     JObj [(''canvas'', JObj [(''content'', JObj [(''components'', JArr components)])])]"

definition components_of :: "json \<Rightarrow> json list" where
  "components_of body = elems (jget (jget (jget body ''canvas'') ''content'') ''components'')"

definition session_expired_merge :: json where
  "session_expired_merge = canvas
     [JObj [(''type'', JStr ''text''), (''text'', JStr ''Error: Session expired. Please try again.''),
            (''align'', JStr ''center'')],
      JObj [(''type'', JStr ''button''), (''id'', JStr ''back_to_home''),
            (''label'', JStr ''Back to Home''), (''action'', submit_action)]]"

definition session_expired_home :: json where
  "session_expired_home = canvas
     [JObj [(''type'', JStr ''text''), (''text'', JStr ''Error: Session expired. Please try again.''),
            (''align'', JStr ''center'')],
      JObj [(''type'', JStr ''button''), (''id'', JStr ''create_ticket''),
            (''label'', JStr ''Create a Freshdesk Ticket''), (''style'', JStr ''primary''),
            (''action'', submit_action)]]"

definition spacer :: "string \<Rightarrow> json" where
  "spacer sz = JObj [(''type'', JStr ''spacer''), (''size'', JStr sz)]"

definition select_ticket_button :: "ticket \<Rightarrow> json" where
  "select_ticket_button t =
     JObj [(''type'', JStr ''button''),
           (''id'', JStr (''select_ticket_'' @ string_of_nat (ticket_id t))),
           (''label'', JStr (''#'' @ string_of_nat (ticket_id t) @ '' - '' @ subject t)),
           (''style'', JStr ''secondary''),
           (''action'', submit_action)]"

definition load_more_tickets_button :: json where
  "load_more_tickets_button =
     JObj [(''type'', JStr ''button''), (''id'', JStr ''load_more_tickets''),
           (''label'', JStr ''Load More Tickets''), (''style'', JStr ''secondary''),
           (''action'', submit_action)]"

definition back_to_home_button :: json where
  "back_to_home_button =
     JObj [(''type'', JStr ''button''), (''id'', JStr ''back_to_home''),
           (''label'', JStr ''Back to Home''), (''style'', JStr ''secondary''),
           (''action'', submit_action)]"

text \<open>The merge page for a state: every revealed ticket, then the buttons.\<close>

definition merge_page :: "page_state \<Rightarrow> json" where
  "merge_page st = canvas
     ([JObj [(''type'', JStr ''text''),
             (''text'', JStr ''Select a ticket to merge this conversation into:''),
             (''style'', JStr ''header'')]]
      @ concat (map (\<lambda>t. [select_ticket_button t, spacer ''s''])
                 (slice (allTickets st) 0 (currentOffset st)))
      @ (if hasMore st then [spacer ''m'', load_more_tickets_button] else [])
      @ [spacer ''m'', back_to_home_button])"

text \<open>
  Branch \<open>load_more_tickets\<close>: without a stored state the session-expired page is sent
  and the handler returns; otherwise the stored state is advanced in place and the merge
  page is rebuilt from it.
\<close>

definition load_more_tickets :: "app_locals \<Rightarrow> app_locals \<times> action list" where
  "load_more_tickets L =
     (case mergePageState L of
        None \<Rightarrow> (L, [SendResponse session_expired_merge])
      | Some mergeState \<Rightarrow>
          (let st' = load_more_advance mergeState
           in (L\<lparr>mergePageState := Some st'\<rparr>, [SendResponse (merge_page st')])))"

definition home_buttons :: "json list" where
  "home_buttons =
     [spacer ''m'',
      JObj [(''type'', JStr ''button''), (''id'', JStr ''create_ticket''),
            (''label'', JStr ''Create a Freshdesk Ticket''), (''style'', JStr ''primary''),
            (''action'', submit_action)],
      spacer ''s'',
      JObj [(''type'', JStr ''button''), (''id'', JStr ''add_to_existing_ticket''),
            (''label'', JStr ''Add to existing Freshdesk Ticket''), (''style'', JStr ''secondary''),
            (''action'', submit_action)],
      spacer ''l'']"

definition load_more_home_error :: json where
  "load_more_home_error = canvas
     [JObj [(''type'', JStr ''text''), (''text'', JStr ''Error loading more tickets. Please try again.''),
            (''align'', JStr ''center'')],
      JObj [(''type'', JStr ''button''), (''id'', JStr ''create_ticket''),
            (''label'', JStr ''Create a Freshdesk Ticket''), (''style'', JStr ''primary''),
            (''action'', submit_action)]]"

text \<open>
  Branch \<open>load_more_home_tickets\<close>. The recent-tickets component formats each creation
  date with the platform's locale library and throws when a date does not format to the
  expected shape; \<open>buildRecentTickets\<close> stands for that helper (the revealed tickets and
  the load-more flag in, the components or the exception out). The state is advanced
  before the helper runs, so an exception leaves it advanced.
\<close>

definition load_more_home_tickets ::
  "(ticket list \<Rightarrow> bool \<Rightarrow> error + json list) \<Rightarrow> app_locals \<Rightarrow> app_locals \<times> action list" where
  "load_more_home_tickets buildRecentTickets L =
     (case homePageState L of
        None \<Rightarrow> (L, [SendResponse session_expired_home])
      | Some homeState \<Rightarrow>
          (let st' = load_more_advance homeState;
               displayedTickets = slice (allTickets st') 0 (currentOffset st')
           in (L\<lparr>homePageState := Some st'\<rparr>,
               (case buildRecentTickets displayedTickets (hasMore st') of
                  Inr recent \<Rightarrow> [SendResponse (canvas (home_buttons @ recent))]
                | Inl e \<Rightarrow> [SendResponse load_more_home_error]))))"

text \<open>A ticket and a session used where a property is evaluated on concrete data.\<close>

definition sample_ticket :: ticket where
  "sample_ticket = \<lparr>ticket_id = 7, subject = ''Printer on fire'', created_at = ''2024-01-01T00:00:00Z''\<rparr>"


section \<open>Numbers\<close>

text \<open>
  A number of the program is an IEEE 754 double. A finite double is kept here as the real
  number it stands for. A decimal literal denotes the double nearest to it, and the
  result of \<open>+\<close> or \<open>*\<close> is the exact sum or product rounded to the nearest double; when two
  doubles are equally near, the one whose last mantissa bit is zero is taken.

  \<open>binade x\<close> is the power of two at the lower end of the binade of a non-negative \<open>x\<close>:
  the largest power of two not above \<open>x\<close>, but not below \<open>2^-1022\<close> (under it the doubles
  are subnormal and keep the spacing of the lowest binade) and not above \<open>2^1023\<close>. It is
  searched upwards from 1 for \<open>x\<close> from 1 on, and downwards from 1 otherwise. The doubles
  of a binade are spaced by \<open>2^-52\<close> times its lower end, and \<open>fl\<close> rounds to that spacing.
  A result of magnitude \<open>2^1024\<close> or more is \<open>Infinity\<close> in the program; no such value
  arises from the numbers met here.
\<close>

definition round_half_even :: "real \<Rightarrow> int" where
  "round_half_even y =
     (let f = \<lfloor>y\<rfloor>; d = y - of_int f
      in if d < 1 / 2 then f else if 1 / 2 < d then f + 1 else if even f then f else f + 1)"

fun binade_up :: "nat \<Rightarrow> real \<Rightarrow> real \<Rightarrow> real" where
  "binade_up 0 x p = p"
| "binade_up (Suc n) x p = (if x < 2 * p then p else binade_up n x (2 * p))"

fun binade_down :: "nat \<Rightarrow> real \<Rightarrow> real \<Rightarrow> real" where
  "binade_down 0 x p = p"
| "binade_down (Suc n) x p = (if p \<le> x then p else binade_down n x (p / 2))"

definition binade :: "real \<Rightarrow> real" where
  "binade x = (if 1 \<le> x then binade_up 1023 x 1 else binade_down 1022 x 1)"

definition fl :: "real \<Rightarrow> real" where
  "fl x = (let u = binade \<bar>x\<bar> / 2 ^ 52 in u * of_int (round_half_even (x / u)))"

text \<open>The operators \<open>*\<close> and \<open>+\<close> on doubles.\<close>

definition js_mul :: "real \<Rightarrow> real \<Rightarrow> real" where
  "js_mul a b = fl (a * b)"

definition js_add :: "real \<Rightarrow> real \<Rightarrow> real" where
  "js_add a b = fl (a + b)"

text \<open>For comparison: rounding to the multiples of a spacing \<open>u\<close>.\<close>

definition grid :: "real \<Rightarrow> real \<Rightarrow> real" where
  "grid u x = u * of_int (round_half_even (x / u))"

section \<open>Upstream calls with retry\<close>

text \<open>
  What one HTTP attempt meets: no response at all (a transport failure, or the ten-second
  per-call timeout), or a response with a status and a body. The HTTP client resolves on a
  status from 200 to 299 and rejects on every other status and on a missing response.
\<close>

datatype attempt =
    NoResponse
  | Responded nat json

record response =
  status :: nat
  data :: json

fun axios :: "attempt \<Rightarrow> error + response" where
  "axios NoResponse = Inl Transport"
| "axios (Responded s body) =
     (if 200 \<le> s \<and> s < 300 then Inr \<lparr>status = s, data = body\<rparr> else Inl (HttpStatus s))"

text \<open>
  The outcome of \<open>fetchWithRetry\<close>: what it returned or threw (\<open>None\<close> stands for falling
  out of the loop, which returns \<open>undefined\<close>), the number of HTTP attempts made, and the
  delays it handed to \<open>setTimeout\<close>, in order, in milliseconds; each delay is a double.
\<close>

record retry_result =
  outcome :: "error + response option"
  calls :: nat
  delays :: "real list"

text \<open>
  The loop of \<open>fetchWithRetry\<close>. \<open>server n\<close> is what attempt number \<open>n\<close> (from 0) meets
  and \<open>random k\<close> is the value of the \<open>k\<close>-th call of \<open>Math.random()\<close> (from 0), a double.
  The loop variables are \<open>attempts\<close> and \<open>currentDelay\<close>; \<open>waited\<close> collects the delays.
  The new delay is computed in double arithmetic: \<open>currentDelay * 2\<close>, its minimum with
  10000, and the product with the factor \<open>0.8 + Math.random() * 0.4\<close>.
\<close>

definition jitter :: "real \<Rightarrow> real" where
  "jitter r = js_add (fl 0.8) (js_mul r (fl 0.4))"

function fetchWithRetry_loop ::
  "(nat \<Rightarrow> attempt) \<Rightarrow> (nat \<Rightarrow> real) \<Rightarrow> nat \<Rightarrow> nat \<Rightarrow> real \<Rightarrow> real list \<Rightarrow> retry_result" where
  "fetchWithRetry_loop server random retries attempts currentDelay waited =
     (if attempts \<le> retries
      then (case axios (server attempts) of
              Inr resp \<Rightarrow> \<lparr>outcome = Inr (Some resp), calls = attempts + 1, delays = waited\<rparr>
            | Inl err \<Rightarrow>
                if attempts + 1 > retries
                then \<lparr>outcome = Inl err, calls = attempts + 1, delays = waited\<rparr>
                else fetchWithRetry_loop server random retries (attempts + 1)
                       (js_mul (min (js_mul currentDelay 2) 10000) (jitter (random attempts)))
                       (waited @ [currentDelay]))
      else \<lparr>outcome = Inr None, calls = attempts, delays = waited\<rparr>)"
  by pat_completeness auto
termination
  by (relation "measure (\<lambda>(server, random, retries, attempts, currentDelay, waited). Suc retries - attempts)") auto

declare fetchWithRetry_loop.simps [simp del]

definition fetchWithRetry :: "(nat \<Rightarrow> attempt) \<Rightarrow> (nat \<Rightarrow> real) \<Rightarrow> nat \<Rightarrow> real \<Rightarrow> retry_result" where
  "fetchWithRetry server random retries initialDelay =
     fetchWithRetry_loop server random retries 0 initialDelay []"

text \<open>The defaults of the parameters \<open>retries\<close> and \<open>initialDelay\<close>.\<close>

definition default_retries :: nat where
  "default_retries = 3"

definition default_initialDelay :: real where
  "default_initialDelay = 500"

text \<open>
  The delay the loop holds after \<open>i\<close> failed attempts, written as a recursion on \<open>i\<close>;
  it is used to describe the list of delays of a run.
\<close>

primrec backoff :: "(nat \<Rightarrow> real) \<Rightarrow> real \<Rightarrow> nat \<Rightarrow> real" where
  "backoff random d 0 = d"
| "backoff random d (Suc i) = js_mul (min (js_mul (backoff random d i) 2) 10000) (jitter (random i))"

text \<open>What a call of \<open>Math.random()\<close> returns: a double from 0 inclusive to 1 exclusive.\<close>

definition draw :: "real \<Rightarrow> bool" where
  "draw r \<longleftrightarrow> 0 \<le> r \<and> r < 1 \<and> fl r = r"

text \<open>Servers and random draws used where a property is evaluated on concrete data.\<close>

definition unreachable_server :: "nat \<Rightarrow> attempt" where
  "unreachable_server n = NoResponse"

definition unavailable_twice :: "nat \<Rightarrow> attempt" where
  "unavailable_twice n = (if n < 2 then Responded 503 JNull else Responded 200 (JStr ''ok''))"

definition not_found_once :: "nat \<Rightarrow> attempt" where
  "not_found_once n = (if n = 0 then Responded 404 JNull else Responded 200 (JStr ''ok''))"

definition lowest_draws :: "nat \<Rightarrow> real" where
  "lowest_draws k = 0"

text \<open>The largest double below 1.\<close>

definition highest_draws :: "nat \<Rightarrow> real" where
  "highest_draws k = 1 - 1 / 2 ^ 53"


section \<open>JavaScript strings and truthiness\<close>

text \<open>
  A string is the list of its code units; only code units below 256 occur in the model.
  An optional string stands for a value that is a string or \<open>undefined\<close>; it is falsy
  when it is \<open>undefined\<close> or the empty string.
\<close>

definition truthy :: "string option \<Rightarrow> bool" where
  "truthy v = (case v of None \<Rightarrow> False | Some s \<Rightarrow> s \<noteq> [])"

text \<open>\<open>a || b\<close> on optional strings.\<close>

definition js_or :: "string option \<Rightarrow> string option \<Rightarrow> string option" where
  "js_or a b = (if truthy a then a else b)"

text \<open>\<open>a || 'literal'\<close>: the result is a string.\<close>

definition or_default :: "string option \<Rightarrow> string \<Rightarrow> string" where
  "or_default a d = (case a of None \<Rightarrow> d | Some s \<Rightarrow> if s = [] then d else s)"

text \<open>
  White space as \<open>String.prototype.trim\<close> sees it, among the code units below 256: tab,
  line feed, vertical tab, form feed, carriage return, space and no-break space.
\<close>

definition is_space :: "char \<Rightarrow> bool" where
  "is_space c = (of_char c \<in> {9, 10, 11, 12, 13, 32, 160 :: nat})"

definition js_trim :: "string \<Rightarrow> string" where
  "js_trim s = rev (dropWhile is_space (rev (dropWhile is_space s)))"

text \<open>\<open>s.indexOf(pat)\<close>: the first position at which \<open>pat\<close> occurs, if any.\<close>

fun index_of :: "string \<Rightarrow> string \<Rightarrow> nat option" where
  "index_of [] pat = (if pat = [] then Some 0 else None)"
| "index_of (c # s) pat =
     (if take (length pat) (c # s) = pat then Some 0
      else map_option Suc (index_of s pat))"

definition js_includes :: "string \<Rightarrow> string \<Rightarrow> bool" where
  "js_includes s pat = (index_of s pat \<noteq> None)"

text \<open>
  The replacement text of \<open>String.prototype.replace\<close> with a string pattern: in the
  replacement, \<open>$$\<close> stands for a dollar sign, \<open>$&\<close> for the matched text, \<open>$`\<close> for the
  text before the match and \<open>$'\<close> for the text after it; any other character, and a
  dollar sign followed by anything else, stands for itself.
\<close>

fun substitution :: "string \<Rightarrow> string \<Rightarrow> string \<Rightarrow> string \<Rightarrow> string" where
  "substitution [] matched before after = []"
| "substitution [c] matched before after = [c]"
| "substitution (c # d # rest) matched before after =
     (if c = CHR ''$'' \<and> d = CHR ''$'' then CHR ''$'' # substitution rest matched before after
      else if c = CHR ''$'' \<and> d = CHR ''&'' then matched @ substitution rest matched before after
      else if c = CHR ''$'' \<and> d = CHR 0x60 then before @ substitution rest matched before after
      else if c = CHR ''$'' \<and> d = CHR 0x27 then after @ substitution rest matched before after
      else c # substitution (d # rest) matched before after)"

text \<open>\<open>s.replace(pat, repl)\<close> for a string pattern: only the first occurrence is replaced.\<close>

definition js_replace :: "string \<Rightarrow> string \<Rightarrow> string \<Rightarrow> string" where
  "js_replace s pat repl =
     (case index_of s pat of
        None \<Rightarrow> s
      | Some i \<Rightarrow>
          (let before = take i s;
               after = drop (i + length pat) s
           in before @ substitution repl pat before after @ after))"

text \<open>
  \<open>parseInt(s, 10)\<close>: leading white space is skipped, a sign is read, then the longest
  run of decimal digits; without a digit the result is \<open>NaN\<close>, here \<open>None\<close>.
\<close>

definition is_digit :: "char \<Rightarrow> bool" where
  "is_digit c = (48 \<le> (of_char c :: nat) \<and> (of_char c :: nat) \<le> 57)"

definition digits_value :: "string \<Rightarrow> int" where
  "digits_value ds = foldl (\<lambda>acc c. acc * 10 + (int (of_char c) - 48)) 0 ds"

definition parseInt10 :: "string \<Rightarrow> int option" where
  "parseInt10 s =
     (let t = dropWhile is_space s;
          neg = (t \<noteq> [] \<and> hd t = CHR ''-'');
          u = (if t \<noteq> [] \<and> (hd t = CHR ''-'' \<or> hd t = CHR ''+'') then tl t else t);
          ds = takeWhile is_digit u
      in if ds = [] then None
         else Some (if neg then - digits_value ds else digits_value ds))"

section \<open>Adding the conversation transcript to a ticket\<close>

text \<open>An attachment found while formatting a conversation, and a downloaded file.\<close>

record attachment =
  att_url :: string
  att_name :: string
  att_content_type :: "string option"
  att_kind :: string

record upload =
  upload_name :: string
  upload_content_type :: string
  upload_buffer :: string

text \<open>A number that may be \<open>NaN\<close>, as \<open>parseInt\<close> returns it.\<close>

datatype jsnum = NaN | Num int

definition parse_number :: "string \<Rightarrow> jsnum" where
  "parse_number s = (case parseInt10 s of None \<Rightarrow> NaN | Some n \<Rightarrow> Num n)"

text \<open>
  The ticket object handed to the helpdesk: the fields the server sets, with the optional
  ones absent when \<open>None\<close>. \<open>td_attachments\<close> is the property \<open>_attachments\<close>.
\<close>

record ticketData =
  td_email :: string
  td_subject :: string
  td_description :: "string option"
  td_source :: nat
  td_status :: "jsnum option"
  td_priority :: "jsnum option"
  td_attachments :: "upload list option"

text \<open>
  What the helper functions of the conversation module meet. \<open>fetchIntercomConversation\<close>
  catches every error of its request and returns \<open>null\<close> (\<open>None\<close>) then;
  \<open>formatConversationAsHtml\<close> builds the transcript and may throw; \<open>downloadFile\<close>
  catches every error and returns \<open>null\<close> then; \<open>inbox_url\<close> is the configured inbox
  address.
\<close>

record helper_env =
  fetchIntercomConversation :: "string \<Rightarrow> json option"
  formatConversationAsHtml :: "json \<Rightarrow> error + string \<times> attachment list"
  downloadFile :: "string \<Rightarrow> string \<Rightarrow> string option"
  inbox_url :: string

definition dq :: string where
  "dq = [CHR 0x22]"

definition nl :: string where
  "nl = [CHR 0x0A]"

definition urlSection :: "string \<Rightarrow> string" where
  "urlSection intercomUrl =
     nl @ ''      <div>Chat Transcript Added</div>'' @ nl
     @ ''      <div>Intercom Conversation URL: <a href='' @ dq @ intercomUrl @ dq
     @ '' rel='' @ dq @ ''noreferrer'' @ dq @ ''>'' @ intercomUrl @ ''</a></div>'' @ nl
     @ ''      <div>&nbsp;</div>'' @ nl @ ''    ''"

text \<open>The files pushed for a list of attachments: one per attachment that downloads.\<close>

fun downloaded :: "helper_env \<Rightarrow> attachment list \<Rightarrow> upload list" where
  "downloaded env [] = []"
| "downloaded env (a # rest) =
     (case downloadFile env (att_url a) (att_name a) of
        None \<Rightarrow> downloaded env rest
      | Some fileBuffer \<Rightarrow>
          \<lparr>upload_name = att_name a,
           upload_content_type = or_default (att_content_type a) ''application/octet-stream'',
           upload_buffer = fileBuffer\<rparr> # downloaded env rest)"

text \<open>
  \<open>addConversationTranscriptToTicket\<close>: the ticket data it returns and the upstream calls
  it awaited. The three early exits return the argument itself; past them the function
  works on a copy.
\<close>

definition addConversationTranscriptToTicket ::
  "helper_env \<Rightarrow> ticketData \<Rightarrow> string option \<Rightarrow> ticketData \<times> action list" where
  "addConversationTranscriptToTicket env ticket conversationId =
     (if \<not> truthy conversationId then (ticket, [])
      else
        (let cid = the conversationId in
         case fetchIntercomConversation env cid of
           None \<Rightarrow> (ticket, [Await (FetchConversation cid)])
         | Some conversation \<Rightarrow>
             (case formatConversationAsHtml env conversation of
                Inl thrown \<Rightarrow> (ticket, [Await (FetchConversation cid)])
              | Inr (transcriptHtml, attachments) \<Rightarrow>
                  (let intercomUrl = inbox_url env @ ''/conversation/'' @ cid;
                       updatedTicketData =
                         (if attachments \<noteq> []
                          then ticket\<lparr>td_attachments :=
                                 Some ((case td_attachments ticket of None \<Rightarrow> [] | Some fs \<Rightarrow> fs)
                                       @ downloaded env attachments)\<rparr>
                          else ticket);
                       newDescription =
                         (if truthy (td_description updatedTicketData)
                             \<and> js_includes (the (td_description updatedTicketData)) ''Chat Transcript Added''
                          then urlSection intercomUrl @ transcriptHtml
                          else urlSection intercomUrl @ or_default (td_description updatedTicketData) ''''
                               @ nl @ nl @ transcriptHtml)
                   in (updatedTicketData\<lparr>td_description := Some newDescription\<rparr>,
                       Await (FetchConversation cid)
                         # map (\<lambda>a. Await (DownloadFile (att_url a))) attachments)))))"

section \<open>The create-ticket submission\<close>

text \<open>The body of a \<open>POST /api/submit\<close>, as far as the handler reads it.\<close>

record conversation_ref =
  conv_id :: "string option"
  source_body :: "string option"

record request =
  component_id :: "string option"
  input_values :: "(string \<rightharpoonup> string) option"
  contact_email :: "string option"
  customer_email :: "string option"
  contact_name :: "string option"
  customer_name :: "string option"
  body_conversation_id :: "string option"
  conversation :: "conversation_ref option"

text \<open>What the handler computes from the body before it looks at the component id.\<close>

definition defaultTitle :: "request \<Rightarrow> string" where
  "defaultTitle req =
     ''Conversation from '' @ or_default (js_or (contact_name req) (customer_name req)) ''Contact''"

definition request_email :: "request \<Rightarrow> string" where
  "request_email req = or_default (js_or (contact_email req) (customer_email req)) ''''"

definition defaultDescription :: "request \<Rightarrow> string" where
  "defaultDescription req =
     (case conversation req of None \<Rightarrow> '''' | Some c \<Rightarrow> or_default (source_body c) '''')"

definition input_value :: "request \<Rightarrow> string \<Rightarrow> string option" where
  "input_value req k = (case input_values req of None \<Rightarrow> None | Some vs \<Rightarrow> vs k)"

text \<open>The helpdesk data the form needs, as the retried calls deliver it.\<close>

record mailbox =
  mailbox_active :: bool

record ticket_field =
  field_name :: string
  field_id :: nat

record choice =
  choice_id :: nat
  choice_label :: string
  choice_value :: nat

text \<open>
  What the handler's upstream calls meet: the three retried form-data calls, the ticket
  list call (email and page size), and the helper that renders recent tickets.
\<close>

record submit_env =
  get_mailboxes :: "error + mailbox list"
  get_ticket_fields :: "error + ticket_field list"
  get_ticket_field :: "nat \<Rightarrow> error + choice list"
  list_tickets :: "string \<Rightarrow> nat \<Rightarrow> error + ticket list"
  buildRecentTickets :: "ticket list \<Rightarrow> bool \<Rightarrow> error + json list"

text \<open>
  The try block that loads the form data. The calls are made in order and the first one
  that throws ends the block; the choices read so far are kept.
\<close>

definition fetch_choices_of ::
  "submit_env \<Rightarrow> ticket_field list \<Rightarrow> string \<Rightarrow> (error + choice list) \<times> action list" where
  "fetch_choices_of env ticketFields name =
     (case find (\<lambda>f. field_name f = name) ticketFields of
        None \<Rightarrow> (Inr [], [])
      | Some f \<Rightarrow> (get_ticket_field env (field_id f), [Await (GetTicketField (field_id f))]))"

definition fetch_form_choices :: "submit_env \<Rightarrow> (choice list \<times> choice list) \<times> action list" where
  "fetch_form_choices env =
     (case get_mailboxes env of
        Inl e \<Rightarrow> (([], []), [Await GetMailboxes])
      | Inr mailboxes \<Rightarrow>
          (case get_ticket_fields env of
             Inl e \<Rightarrow> (([], []), [Await GetMailboxes, Await GetTicketFields])
           | Inr ticketFields \<Rightarrow>
               (case fetch_choices_of env ticketFields ''status'' of
                  (Inl e, a1) \<Rightarrow> (([], []), [Await GetMailboxes, Await GetTicketFields] @ a1)
                | (Inr statusChoices, a1) \<Rightarrow>
                    (case fetch_choices_of env ticketFields ''priority'' of
                       (Inl e, a2) \<Rightarrow>
                         ((statusChoices, []), [Await GetMailboxes, Await GetTicketFields] @ a1 @ a2)
                     | (Inr priorityChoices, a2) \<Rightarrow>
                         ((statusChoices, priorityChoices),
                          [Await GetMailboxes, Await GetTicketFields] @ a1 @ a2)))))"

definition email_rules :: json where
  "email_rules =
     JObj [(''required'', JObj [(''error'', JStr ''Email is required'')]),
           (''format'', JObj [(''type'', JStr ''email_address''),
                              (''error'', JStr ''Please enter a valid email address'')])]"

definition status_option :: "choice \<Rightarrow> json" where
  "status_option c =
     JObj [(''type'', JStr ''option''), (''id'', JStr (''status_'' @ string_of_nat (choice_id c))),
           (''text'', JStr (choice_label c)), (''value'', JStr (string_of_nat (choice_id c)))]"

definition priority_option :: "choice \<Rightarrow> json" where
  "priority_option c =
     JObj [(''type'', JStr ''option''), (''id'', JStr (''priority_'' @ string_of_nat (choice_value c))),
           (''text'', JStr (choice_label c)), (''value'', JStr (string_of_nat (choice_value c)))]"

definition form_buttons :: "json list" where
  "form_buttons =
     [JObj [(''type'', JStr ''button''), (''id'', JStr ''submit_ticket_button''),
            (''label'', JStr ''Create Ticket''), (''style'', JStr ''primary''),
            (''action'', submit_action)],
      JObj [(''type'', JStr ''button''), (''id'', JStr ''cancel''),
            (''label'', JStr ''Cancel''), (''style'', JStr ''secondary''),
            (''action'', submit_action)]]"

text \<open>The two emptiness tests of the validation.\<close>

definition is_blank :: "string option \<Rightarrow> bool" where
  "is_blank v = (\<not> truthy v \<or> js_trim (the v) = [])"

text \<open>The form sent back when the email or the subject is blank.\<close>

definition errorForm :: "request \<Rightarrow> choice list \<Rightarrow> choice list \<Rightarrow> json list" where
  "errorForm req statusChoices priorityChoices =
     (let isEmailEmpty = is_blank (input_value req ''email'');
          isSubjectEmpty = is_blank (input_value req ''subject'')
      in [JObj [(''type'', JStr ''text''),
                (''text'', JStr (if isEmailEmpty \<and> isSubjectEmpty then ''Email and Subject are required''
                                 else if isEmailEmpty then ''Email is required''
                                 else ''Subject is required'')),
                (''style'', JStr ''error'')],
          JObj [(''type'', JStr ''input''), (''id'', JStr ''email''), (''label'', JStr ''Email''),
                (''value'', JStr (if isEmailEmpty then '''' else the (input_value req ''email''))),
                (''placeholder'', JStr ''Enter email address''),
                (''error'', if isEmailEmpty then JStr ''Email is required'' else JUndefined),
                (''validation_rules'', email_rules)],
          JObj [(''type'', JStr ''input''), (''id'', JStr ''subject''), (''label'', JStr ''Subject''),
                (''value'', JStr (if isSubjectEmpty then ''''
                                  else or_default (js_or (input_value req ''subject'') (Some (defaultTitle req)))
                                         ''New Ticket'')),
                (''error'', if isSubjectEmpty then JStr ''Subject is required'' else JUndefined),
                (''validation_rules'', JObj [(''required'', JObj [(''error'', JStr ''Subject is required'')])])],
          JObj [(''type'', JStr ''textarea''), (''id'', JStr ''description''), (''label'', JStr ''Description''),
                (''value'', JStr (or_default (input_value req ''description'') ''Chat Transcript Added''))]]
         @ (if length statusChoices > 0
            then [JObj [(''type'', JStr ''dropdown''), (''id'', JStr ''status''), (''label'', JStr ''Status''),
                        (''value'', JStr (or_default (input_value req ''status'') ''status_2'')),
                        (''options'', JArr (map status_option statusChoices))]]
            else [])
         @ (if length priorityChoices > 0
            then [JObj [(''type'', JStr ''dropdown''), (''id'', JStr ''priority''), (''label'', JStr ''Priority''),
                        (''value'', JStr (or_default (input_value req ''priority'') ''priority_2'')),
                        (''options'', JArr (map priority_option priorityChoices))]]
            else [])
         @ form_buttons)"

definition validation_reply :: "request \<Rightarrow> choice list \<Rightarrow> choice list \<Rightarrow> json" where
  "validation_reply req statusChoices priorityChoices =
     JObj [(''canvas'', JObj [(''content'',
       JObj [(''components'', JArr (errorForm req statusChoices priorityChoices)),
             (''validation_errors'',
                JObj [(''email'', if is_blank (input_value req ''email'')
                                  then JStr ''Email is required'' else JUndefined),
                      (''subject'', if is_blank (input_value req ''subject'')
                                    then JStr ''Subject is required'' else JUndefined)])])])]"

text \<open>The message of an error, as it is put into a page or a note.\<close>

fun error_message :: "error \<Rightarrow> string" where
  "error_message Transport = ''Network Error''"
| "error_message (HttpStatus s) = ''Request failed with status code '' @ string_of_nat s"
| "error_message (Thrown m) = m"

text \<open>The page of the handler's outer catch block.\<close>

definition error_reply :: "string \<Rightarrow> json" where
  "error_reply message = canvas
     [JObj [(''type'', JStr ''text''), (''text'', JStr (''An error occurred: '' @ message)),
            (''style'', JStr ''error'')],
      JObj [(''type'', JStr ''button''), (''id'', JStr ''try_again''), (''label'', JStr ''Try Again''),
            (''style'', JStr ''primary''), (''action'', JObj [(''type'', JStr ''reload'')])],
      JObj [(''type'', JStr ''divider'')],
      JObj [(''type'', JStr ''text''), (''id'', JStr ''recent_tickets_header''),
            (''text'', JStr ''Recent Tickets''), (''style'', JStr ''header'')],
      JObj [(''type'', JStr ''text''), (''id'', JStr ''no_tickets''),
            (''text'', JStr ''No recent tickets''), (''style'', JStr ''muted'')]]"

text \<open>
  The form of the second required-field test, which follows the validation above and
  tests the trimmed values again.
\<close>

definition second_validation_reply :: "request \<Rightarrow> string \<Rightarrow> string \<Rightarrow> json" where
  "second_validation_reply req subj description =
     JObj [(''canvas'', JObj [(''content'',
       JObj [(''components'', JArr
          ([JObj [(''type'', JStr ''text''), (''text'', JStr ''Create a new Freshdesk ticket''),
                  (''style'', JStr ''header'')],
            JObj [(''type'', JStr ''input''), (''id'', JStr ''email''), (''label'', JStr ''Email''),
                  (''value'', JStr ''''), (''placeholder'', JStr ''Enter email address''),
                  (''validation_rules'', email_rules), (''error'', JStr ''Email is required'')],
            JObj [(''type'', JStr ''input''), (''id'', JStr ''subject''), (''label'', JStr ''Subject''),
                  (''value'', JStr (or_default (js_or (Some subj) (Some (defaultTitle req))) ''New Ticket''))],
            JObj [(''type'', JStr ''textarea''), (''id'', JStr ''description''),
                  (''label'', JStr ''Description''),
                  (''value'', JStr (or_default (js_or (Some description) (Some (defaultDescription req))) ''''))]]
           @ (if truthy (input_value req ''status'')
              then [JObj [(''type'', JStr ''dropdown''), (''id'', JStr ''status''), (''label'', JStr ''Status''),
                          (''value'', JStr (the (input_value req ''status'')))]]
              else [])
           @ (if truthy (input_value req ''priority'')
              then [JObj [(''type'', JStr ''dropdown''), (''id'', JStr ''priority''),
                          (''label'', JStr ''Priority''),
                          (''value'', JStr (the (input_value req ''priority'')))]]
              else [])
           @ [JObj [(''type'', JStr ''button''), (''id'', JStr ''submit_ticket_button''),
                    (''label'', JStr ''Create Ticket''), (''style'', JStr ''primary''),
                    (''disabled'', JBool False), (''action'', submit_action)],
              JObj [(''type'', JStr ''button''), (''id'', JStr ''cancel''),
                    (''label'', JStr ''Cancel''), (''style'', JStr ''secondary''),
                    (''disabled'', JBool False), (''action'', submit_action)]])),
             (''validation_errors'', JObj [(''email'', JStr ''Email is required'')])])])]"

definition fill_required_reply :: json where
  "fill_required_reply = canvas
     [JObj [(''type'', JStr ''text''), (''text'', JStr ''Please fill in all required fields''),
            (''style'', JStr ''error'')],
      JObj [(''type'', JStr ''button''), (''id'', JStr ''try_again''), (''label'', JStr ''Try Again''),
            (''style'', JStr ''primary''), (''action'', JObj [(''type'', JStr ''reload'')])]]"

text \<open>The buttons of the home page as this branch and the merge branch build them.\<close>

definition create_ticket_button :: json where
  "create_ticket_button =
     JObj [(''type'', JStr ''button''), (''id'', JStr ''create_ticket''),
           (''label'', JStr ''Create a Freshdesk Ticket''), (''style'', JStr ''primary''),
           (''action'', submit_action)]"

definition add_to_existing_button :: json where
  "add_to_existing_button =
     JObj [(''type'', JStr ''button''), (''id'', JStr ''add_to_existing_ticket''),
           (''label'', JStr ''Add to existing Freshdesk Ticket''), (''action'', submit_action)]"

definition home_page_after_submit :: "json list \<Rightarrow> json" where
  "home_page_after_submit recent = canvas
     ([spacer ''m'', create_ticket_button, spacer ''s'', add_to_existing_button, spacer ''l''] @ recent)"

text \<open>
  The recent-tickets part of the home page after a submission: from the stored state
  when it belongs to this email, otherwise from a fresh fetch of twenty tickets, which
  also creates the stored state. A failed fetch, or a failure while rendering the fresh
  tickets, is caught and the empty list is rendered instead. The result is the new
  \<open>app.locals\<close>, the awaited calls, and the components or the exception that escapes.
\<close>

definition home_recent ::
  "submit_env \<Rightarrow> app_locals \<Rightarrow> string option \<Rightarrow> app_locals \<times> action list \<times> (error + json list)" where
  "home_recent env L email =
     (if truthy email
      then (let e = the email;
                fresh =
                  (case list_tickets env e 20 of
                     Inl err \<Rightarrow> (L, [Await (ListTickets e 20)], buildRecentTickets env [] False)
                   | Inr tickets \<Rightarrow>
                       (let L' = L\<lparr>homePageState := Some \<lparr>customerEmail = e, currentOffset = 5,
                                     allTickets = tickets, hasMore = (length tickets > 5)\<rparr>\<rparr>
                        in case buildRecentTickets env (slice tickets 0 5) (length tickets > 5) of
                             Inr components \<Rightarrow> (L', [Await (ListTickets e 20)], Inr components)
                           | Inl thrown \<Rightarrow>
                               (L', [Await (ListTickets e 20)], buildRecentTickets env [] False)))
            in case homePageState L of
                 None \<Rightarrow> fresh
               | Some st \<Rightarrow>
                   if customerEmail st = e
                   then (L, [], buildRecentTickets env (slice (allTickets st) 0 (currentOffset st)) (hasMore st))
                   else fresh)
      else (L, [], Inr []))"

text \<open>The work handed to \<open>setTimeout(..., 0)\<close>: the values the closure captured.\<close>

record ticket_job =
  job_email :: string
  job_subject :: string
  job_description :: string
  job_status :: string
  job_priority :: string
  job_conversationId :: "string option"

text \<open>
  What one branch of the handler did: \<open>app.locals\<close> afterwards, its actions in order, and
  the background work it scheduled, if any.
\<close>

record handled =
  locals_after :: app_locals
  did :: "action list"
  scheduled :: "ticket_job option"

definition request_conversation_id :: "request \<Rightarrow> string option" where
  "request_conversation_id req =
     js_or (body_conversation_id req)
           (case conversation req of None \<Rightarrow> None | Some c \<Rightarrow> conv_id c)"

text \<open>
  Branch \<open>submit_ticket_button\<close>. The handler first stores the request's email as the
  context email. A blank email or subject reloads the form data and sends the form back.
  Otherwise the values are trimmed, the description must be non-empty, the recent tickets
  are fetched, the home page is built, the tracker is set, the page is sent, and the
  ticket creation is scheduled.
\<close>

definition submit_ticket_button :: "submit_env \<Rightarrow> app_locals \<Rightarrow> request \<Rightarrow> handled" where
  "submit_ticket_button env L0 req =
     (let L = L0\<lparr>contextEmail := Some (request_email req)\<rparr>
      in if is_blank (input_value req ''email'') \<or> is_blank (input_value req ''subject'')
         then (case fetch_form_choices env of
                 ((statusChoices, priorityChoices), awaited) \<Rightarrow>
                   \<lparr>locals_after = L,
                    did = awaited @ [SendResponse (validation_reply req statusChoices priorityChoices)],
                    scheduled = None\<rparr>)
         else
           (let email = js_trim (the (input_value req ''email''));
                subj = js_trim (the (input_value req ''subject''));
                description = or_default (js_or (input_value req ''description'')
                                                (Some (defaultDescription req))) '''';
                status = (if truthy (input_value req ''status'')
                          then js_replace (the (input_value req ''status'')) ''status_'' '''' else '''');
                priority = (if truthy (input_value req ''priority'')
                            then js_replace (the (input_value req ''priority'')) ''priority_'' '''' else '''')
            in if email = [] \<or> subj = []
               then \<lparr>locals_after = L,
                     did = [SendResponse (second_validation_reply req subj description)],
                     scheduled = None\<rparr>
               else if subj = [] \<or> description = []
               then \<lparr>locals_after = L, did = [SendResponse fill_required_reply], scheduled = None\<rparr>
               else
                 (case home_recent env L
                         (js_or (js_or (contact_email req) (customer_email req)) (contextEmail L)) of
                    (L', awaited, Inl thrown) \<Rightarrow>
                      \<lparr>locals_after = L',
                       did = Await (ListTickets email 5) # awaited
                               @ [SendResponse (error_reply (error_message thrown))],
                       scheduled = None\<rparr>
                  | (L', awaited, Inr recent) \<Rightarrow>
                      \<lparr>locals_after = L',
                       did = Await (ListTickets email 5) # awaited
                               @ [Track email True, SendResponse (home_page_after_submit recent)],
                       scheduled = Some \<lparr>job_email = email, job_subject = subj,
                                         job_description = description, job_status = status,
                                         job_priority = priority,
                                         job_conversationId = request_conversation_id req\<rparr>\<rparr>)))"

text \<open>
  The environment of the background work: the conversation helpers, the ticket creation
  call (the new ticket's id, or the error it threw), the call that adds a note to a ticket,
  the details a catch block reads from an error for its failure note (the upstream
  response's own message when there is one, the error's message otherwise), and the
  configured helpdesk address.
\<close>

record job_env = helper_env +
  createFreshdeskTicket :: "ticketData \<Rightarrow> error + nat"
  addTicketNote :: "string \<Rightarrow> error option"
  error_details :: "error \<Rightarrow> string"
  freshdesk_domain :: string

definition helper_of :: "job_env \<Rightarrow> helper_env" where
  "helper_of env = helper_env.truncate env"

text \<open>
  The scheduled ticket creation. With a conversation id the transcript is fetched and
  formatted first (a failure there is caught and the description stays), then the
  transcript helper is run on the ticket data, the ticket is created, and the outcome is
  reported with a note to the conversation and written to the tracker.
\<close>

definition run_ticket_job :: "job_env \<Rightarrow> ticket_job \<Rightarrow> action list" where
  "run_ticket_job env job =
     (let cid = job_conversationId job;
          first =
            (if truthy cid
             then (case fetchIntercomConversation env (the cid) of
                     None \<Rightarrow> (job_description job, [Await (FetchConversation (the cid))])
                   | Some conv \<Rightarrow>
                       (case formatConversationAsHtml env conv of
                          Inl thrown \<Rightarrow> (job_description job, [Await (FetchConversation (the cid))])
                        | Inr (html, attachments) \<Rightarrow>
                            (if html \<noteq> [] then job_description job @ nl @ nl @ html
                             else job_description job,
                             [Await (FetchConversation (the cid))])))
             else (job_description job, []));
          ticket = \<lparr>td_email = job_email job, td_subject = job_subject job,
                    td_description = Some (fst first), td_source = 2,
                    td_status = (if job_status job \<noteq> [] then Some (parse_number (job_status job)) else None),
                    td_priority = (if job_priority job \<noteq> []
                                   then Some (parse_number (job_priority job)) else None),
                    td_attachments = None\<rparr>;
          second = (if truthy cid then addConversationTranscriptToTicket (helper_of env) ticket cid
                    else (ticket, []))
      in snd first @ snd second @ [Await CreateTicket]
         @ (case createFreshdeskTicket env (fst second) of
              Inr ticketId \<Rightarrow>
                (if truthy cid
                 then [PostIntercomNote (the cid)
                         (''Freshdesk Ticket creation successful.'' @ nl @ ''Ticket URL: ''
                          @ freshdesk_domain env @ ''/a/tickets/'' @ string_of_nat ticketId)]
                 else [])
            | Inl err \<Rightarrow>
                (if truthy cid
                 then [PostIntercomNote (the cid)
                         (''Freshdesk Ticket creation failed. Contact Admin.'' @ nl @ ''Error: ''
                          @ error_details env err)]
                 else []))
         @ [Track (job_email job) False])"

section \<open>The merge confirmation\<close>

definition missing_ids_reply :: json where
  "missing_ids_reply = canvas
     [JObj [(''type'', JStr ''text''), (''text'', JStr ''Error: Missing ticket or conversation ID.''),
            (''style'', JStr ''header'')],
      JObj [(''type'', JStr ''button''), (''id'', JStr ''cancel''), (''label'', JStr ''Back to Home''),
            (''style'', JStr ''primary'')]]"

definition merge_home_buttons :: "json list" where
  "merge_home_buttons = [create_ticket_button, spacer ''s'', add_to_existing_button]"

text \<open>\<open>fetchRecentTickets\<close>: the five most recent tickets, or none when the call fails.\<close>

definition fetchRecentTickets :: "submit_env \<Rightarrow> string \<Rightarrow> ticket list" where
  "fetchRecentTickets env email =
     (if email = [] then []
      else case list_tickets env email 5 of Inl err \<Rightarrow> [] | Inr tickets \<Rightarrow> tickets)"

text \<open>
  The first of the two asynchronous blocks of branch \<open>merge_ticket\<close>: it builds the home
  page and sends it. With a stored state for this email nothing is awaited; otherwise
  the recent tickets are fetched first. A failure while rendering is caught and the bare
  home page is sent.
\<close>

definition merge_ticket_reply :: "submit_env \<Rightarrow> app_locals \<Rightarrow> request \<Rightarrow> action list" where
  "merge_ticket_reply env L req =
     (let email = js_or (js_or (contact_email req) (customer_email req)) (contextEmail L);
          send = (\<lambda>rendered. case rendered of
                     Inr recent \<Rightarrow> SendResponse (canvas (merge_home_buttons @ recent))
                   | Inl thrown \<Rightarrow> SendResponse (canvas merge_home_buttons))
      in if truthy email
         then (case homePageState L of
                 Some st \<Rightarrow>
                   if customerEmail st = the email
                   then [send (buildRecentTickets env (slice (allTickets st) 0 (currentOffset st)) (hasMore st))]
                   else [Await (ListTickets (the email) 5),
                         send (buildRecentTickets env (fetchRecentTickets env (the email)) False)]
               | None \<Rightarrow>
                   [Await (ListTickets (the email) 5),
                    send (buildRecentTickets env (fetchRecentTickets env (the email)) False)])
         else [send (Inr [])])"

text \<open>
  The second block: it fetches and formats the conversation, downloads the attachments,
  adds the note to the ticket and reports the outcome with a note to the conversation. A
  conversation that could not be fetched makes the formatter throw, and every exception
  of the block ends in the failure note.
\<close>

definition merge_ticket_background :: "job_env \<Rightarrow> string \<Rightarrow> string \<Rightarrow> action list" where
  "merge_ticket_background env ticketId conversationId =
     Await (FetchConversation conversationId)
     # (let failure = (\<lambda>err. PostIntercomNote conversationId
                          (''Failed to add note to Freshdesk ticket. Details: '' @ error_details env err))
        in case fetchIntercomConversation env conversationId of
             None \<Rightarrow> [failure (Thrown ''Invalid conversation data provided for transcript generation.'')]
           | Some conv \<Rightarrow>
               (case formatConversationAsHtml env conv of
                  Inl thrown \<Rightarrow> [failure thrown]
                | Inr (html, attachments) \<Rightarrow>
                    map (\<lambda>a. Await (DownloadFile (att_url a))) attachments
                    @ [Await (AddTicketNote ticketId),
                       (case addTicketNote env ticketId of
                          None \<Rightarrow> PostIntercomNote conversationId
                                    (''Successfully added conversation as a note to Freshdesk ticket #''
                                     @ ticketId @ ''.'')
                        | Some err \<Rightarrow> failure err)]))"

text \<open>
  Branch \<open>merge_ticket\<close>: either the handler replies at once (the request has no
  conversation object, which throws into the outer catch block, or an id is missing), or
  it starts the two blocks, the reply first, and returns without awaiting either.
\<close>

datatype merge_outcome =
    Replied "action list"
  | Started "action list" "action list"

definition merge_ticket :: "submit_env \<Rightarrow> job_env \<Rightarrow> app_locals \<Rightarrow> request \<Rightarrow> merge_outcome" where
  "merge_ticket env jenv L0 req =
     (let L = L0\<lparr>contextEmail := Some (request_email req)\<rparr>
      in case conversation req of
           None \<Rightarrow> Replied [SendResponse (error_reply
                      ''Cannot read properties of undefined (reading 'id')'')]
         | Some c \<Rightarrow>
             if \<not> truthy (selectedTicketId L) \<or> \<not> truthy (conv_id c)
             then Replied [SendResponse missing_ids_reply]
             else Started (merge_ticket_reply env L req)
                          (merge_ticket_background jenv (the (selectedTicketId L)) (the (conv_id c))))"

section \<open>The event loop\<close>

text \<open>
  A task runs without interruption up to its next awaited call. \<open>segments\<close> cuts the
  actions of a task after each \<open>Await\<close>.
\<close>

fun segments_from :: "action list \<Rightarrow> action list \<Rightarrow> action list list" where
  "segments_from cur [] = (if cur = [] then [] else [cur])"
| "segments_from cur (a # rest) =
     (if is_await a then (cur @ [a]) # segments_from [] rest
      else segments_from (cur @ [a]) rest)"

definition segments :: "action list \<Rightarrow> action list list" where
  "segments acts = segments_from [] acts"

text \<open>All ways of merging two sequences that keep the order within each.\<close>

fun merges :: "'a list \<Rightarrow> 'a list \<Rightarrow> 'a list list" where
  "merges [] ys = [ys]"
| "merges xs [] = [xs]"
| "merges (x # xs) (y # ys) =
     map ((#) x) (merges xs (y # ys)) @ map ((#) y) (merges (x # xs) ys)"

text \<open>
  The orders in which two tasks started one after the other can run: the first runs to
  its first await, then the second to its first await, and from then on each continues
  whenever its awaited call resolves, in any order.
\<close>

definition started_in_turn :: "action list \<Rightarrow> action list \<Rightarrow> action list list" where
  "started_in_turn t1 t2 =
     (case (segments t1, segments t2) of
        ([], s2) \<Rightarrow> [concat s2]
      | (a # s1, []) \<Rightarrow> [concat (a # s1)]
      | (a # s1, b # s2) \<Rightarrow> map (\<lambda>m. a @ b @ concat m) (merges s1 s2))"

text \<open>
  The timer fires while the handler is suspended in an awaited call: \<open>timer_during k\<close>
  puts the timer's callback right after the \<open>k\<close>-th action, which must be an \<open>Await\<close>.
\<close>

definition timer_during :: "nat \<Rightarrow> json \<Rightarrow> action list \<Rightarrow> action list option" where
  "timer_during k fallback acts =
     (if 0 < k \<and> k \<le> length acts \<and> is_await (acts ! (k - 1))
      then Some (take k acts @ [TimerFires fallback] @ drop k acts)
      else None)"

definition run :: "action list \<Rightarrow> responder" where
  "run acts = foldl perform new_responder acts"

text \<open>
  Whether every call of the completion notifier in a sequence of actions comes after a
  reply has been sent.
\<close>

fun notes_after_reply :: "responder \<Rightarrow> action list \<Rightarrow> bool" where
  "notes_after_reply r [] = True"
| "notes_after_reply r (PostIntercomNote c body # rest) =
     (replies r \<noteq> [] \<and> notes_after_reply r rest)"
| "notes_after_reply r (a # rest) = notes_after_reply (perform r a) rest"

section \<open>Concrete requests and environments\<close>

text \<open>Data on which the properties below are evaluated.\<close>

definition ann :: string where
  "ann = ''ann@example.com''"

definition quick_env :: submit_env where
  "quick_env =
     \<lparr>get_mailboxes = Inr [\<lparr>mailbox_active = True\<rparr>],
      get_ticket_fields = Inr [\<lparr>field_name = ''status'', field_id = 11\<rparr>,
                               \<lparr>field_name = ''priority'', field_id = 12\<rparr>],
      get_ticket_field = (\<lambda>i. Inr [\<lparr>choice_id = 2, choice_label = ''Open'', choice_value = 1\<rparr>]),
      list_tickets = (\<lambda>email n. Inr []),
      buildRecentTickets = (\<lambda>tickets more. Inr [])\<rparr>"

definition intercom_down :: job_env where
  "intercom_down =
     \<lparr>fetchIntercomConversation = (\<lambda>cid. None),
      formatConversationAsHtml = (\<lambda>conv. Inl (Thrown ''unreachable'')),
      downloadFile = (\<lambda>url name. None),
      inbox_url = ''https://inbox.example'',
      createFreshdeskTicket = (\<lambda>t. Inr 77),
      addTicketNote = (\<lambda>ticketId. None),
      error_details = error_message,
      freshdesk_domain = ''https://desk.example''\<rparr>"

definition broken_transcript :: helper_env where
  "broken_transcript =
     \<lparr>fetchIntercomConversation = (\<lambda>cid. Some (JObj [(''id'', JStr cid)])),
      formatConversationAsHtml = (\<lambda>conv. Inl (Thrown ''Invalid time value'')),
      downloadFile = (\<lambda>url name. None),
      inbox_url = ''https://inbox.example''\<rparr>"

definition working_transcript :: helper_env where
  "working_transcript =
     \<lparr>fetchIntercomConversation = (\<lambda>cid. Some (JObj [(''id'', JStr cid)])),
      formatConversationAsHtml = (\<lambda>conv. Inr (''<html><body></body></html>'',
          [\<lparr>att_url = ''https://files.example/a.png'', att_name = ''a.png'',
            att_content_type = None, att_kind = ''regular_attachment''\<rparr>])),
      downloadFile = (\<lambda>url name. Some ''PNG''),
      inbox_url = ''https://inbox.example''\<rparr>"

definition sample_ticketData :: ticketData where
  "sample_ticketData =
     \<lparr>td_email = ann, td_subject = ''Printer on fire'', td_description = Some ''Chat Transcript Added'',
      td_source = 2, td_status = Some (Num 2), td_priority = None, td_attachments = None\<rparr>"

definition valid_submission :: request where
  "valid_submission =
     \<lparr>component_id = Some ''submit_ticket_button'',
      input_values = Some [''email'' \<mapsto> ann, ''subject'' \<mapsto> ''Printer on fire'',
                           ''description'' \<mapsto> ''It burns''],
      contact_email = Some ann, customer_email = None,
      contact_name = Some ''Ann'', customer_name = None,
      body_conversation_id = Some ''c1'',
      conversation = Some \<lparr>conv_id = Some ''c1'', source_body = None\<rparr>\<rparr>"

definition no_email_submission :: request where
  "no_email_submission =
     valid_submission\<lparr>input_values := Some [''email'' \<mapsto> [], ''subject'' \<mapsto> ''Printer on fire'']\<rparr>"

definition spaces_subject_submission :: request where
  "spaces_subject_submission =
     valid_submission\<lparr>input_values := Some [''email'' \<mapsto> [], ''subject'' \<mapsto> ''  '']\<rparr>"

definition merge_request :: request where
  "merge_request = valid_submission\<lparr>component_id := Some ''merge_ticket'', input_values := None\<rparr>"

definition ticket_selected :: app_locals where
  "ticket_selected = fresh_locals\<lparr>selectedTicketId := Some ''42''\<rparr>"

text \<open>The page the timer's callback builds when the ticket list is empty or fails.\<close>

definition timeout_page :: json where
  "timeout_page = canvas
     [create_ticket_button,
      JObj [(''type'', JStr ''divider'')],
      JObj [(''type'', JStr ''text''), (''id'', JStr ''recent_tickets_header''),
            (''text'', JStr ''Recent Tickets''), (''style'', JStr ''header'')],
      JObj [(''type'', JStr ''text''), (''id'', JStr ''no_tickets''),
            (''text'', JStr ''No recent tickets''), (''style'', JStr ''muted'')]]"

definition open_choice :: choice where
  "open_choice = \<lparr>choice_id = 2, choice_label = ''Open'', choice_value = 1\<rparr>"


section \<open>The pages of a list view\<close>

text \<open>
  \<open>buildRecentTicketsComponent\<close> formats each creation date with the platform's date and
  locale library and upper-cases the day period with \<open>toUpperCase\<close>; the two library
  functions are parameters here. \<open>toLocaleString\<close> stands for
  \<open>new Date(created_at).toLocaleString('en-IN', ...)\<close> with the options of the source.
\<close>

record formatting =
  toLocaleString :: "string \<Rightarrow> string"
  toUpperCase :: "string \<Rightarrow> string"

text \<open>
  \<open>const [a, b] = s.split(sep)\<close> for a non-empty separator: \<open>a\<close> is the text before the
  first separator (all of \<open>s\<close> without one), and \<open>b\<close> the text between the first and the
  second (up to the end without a second); \<open>b\<close> is \<open>undefined\<close> without a separator.
\<close>

definition split_first_two :: "string \<Rightarrow> string \<Rightarrow> string \<times> string option" where
  "split_first_two s sep =
     (case index_of s sep of
        None \<Rightarrow> (s, None)
      | Some i \<Rightarrow>
          (let rest = drop (i + length sep) s
           in (take i s, Some (case index_of rest sep of None \<Rightarrow> rest | Some j \<Rightarrow> take j rest))))"

text \<open>The \<open>TypeError\<close> of a method call on \<open>undefined\<close>.\<close>

definition undefined_has_no :: "string \<Rightarrow> error" where
  "undefined_has_no method =
     Thrown (''Cannot read properties of undefined (reading '' @ [CHR 0x27] @ method @ [CHR 0x27] @ '')'')"

text \<open>
  The date line of a ticket: the formatted date is split at the first comma and space
  into a date part and a time part, the time part at the first space into the time and
  the day period. A missing time part or a missing period makes the method call on it
  throw.
\<close>

definition ticket_date_text :: "formatting \<Rightarrow> string \<Rightarrow> error + string" where
  "ticket_date_text fmt created =
     (case split_first_two (toLocaleString fmt created) '', '' of
        (datePart, None) \<Rightarrow> Inl (undefined_has_no ''split'')
      | (datePart, Some timePart) \<Rightarrow>
          (case split_first_two timePart '' '' of
             (time, None) \<Rightarrow> Inl (undefined_has_no ''toUpperCase'')
           | (time, Some period) \<Rightarrow> Inr (datePart @ '', '' @ time @ '' '' @ toUpperCase fmt period)))"

definition displaySubject :: "ticket \<Rightarrow> string" where
  "displaySubject t = (if length (subject t) > 40 then take 40 (subject t) @ ''...'' else subject t)"

text \<open>The three components of one ticket, given its date line.\<close>

definition ticket_entry :: "string \<Rightarrow> ticket \<Rightarrow> string \<Rightarrow> json list" where
  "ticket_entry domain t dateLine =
     [JObj [(''type'', JStr ''text''),
            (''id'', JStr (''ticket_'' @ string_of_nat (ticket_id t))),
            (''text'', JStr (''[#'' @ string_of_nat (ticket_id t) @ '' - '' @ displaySubject t @ '']('' @ domain
                             @ ''/a/tickets/'' @ string_of_nat (ticket_id t) @ '')'')),
            (''style'', JStr ''muted'')],
      JObj [(''type'', JStr ''text''),
            (''id'', JStr (''ticket_date_'' @ string_of_nat (ticket_id t))),
            (''text'', JStr dateLine),
            (''style'', JStr ''muted''),
            (''size'', JStr ''small'')],
      spacer ''xs'']"

text \<open>The loop over the tickets; the first ticket whose date line throws ends it.\<close>

fun ticket_entries :: "formatting \<Rightarrow> string \<Rightarrow> ticket list \<Rightarrow> error + json list" where
  "ticket_entries fmt domain [] = Inr []"
| "ticket_entries fmt domain (t # ts) =
     (case ticket_date_text fmt (created_at t) of
        Inl thrown \<Rightarrow> Inl thrown
      | Inr dateLine \<Rightarrow>
          (case ticket_entries fmt domain ts of
             Inl thrown \<Rightarrow> Inl thrown
           | Inr components \<Rightarrow> Inr (ticket_entry domain t dateLine @ components)))"

definition recent_header :: "json list" where
  "recent_header =
     [spacer ''l'',
      JObj [(''type'', JStr ''text''), (''text'', JStr ''Recent Tickets''), (''style'', JStr ''header''),
            (''align'', JStr ''left''), (''color'', JStr ''white'')],
      spacer ''xs'']"

definition load_more_home_button :: json where
  "load_more_home_button =
     JObj [(''type'', JStr ''button''), (''id'', JStr ''load_more_home_tickets''),
           (''label'', JStr ''Load More Tickets''), (''style'', JStr ''secondary''),
           (''action'', submit_action)]"

text \<open>
  \<open>buildRecentTicketsComponent(tickets, showLoadMore)\<close>; \<open>domain\<close> is the configured
  helpdesk address.
\<close>

definition buildRecentTicketsComponent ::
  "formatting \<Rightarrow> string \<Rightarrow> ticket list \<Rightarrow> bool \<Rightarrow> error + json list" where
  "buildRecentTicketsComponent fmt domain tickets showLoadMore =
     (if length tickets > 0
      then (case ticket_entries fmt domain tickets of
              Inl thrown \<Rightarrow> Inl thrown
            | Inr components \<Rightarrow>
                Inr (recent_header @ components
                     @ (if showLoadMore then [spacer ''m'', load_more_home_button] else [])))
      else Inr (recent_header
                @ [JObj [(''type'', JStr ''text''), (''text'', JStr ''No recent tickets found for this user.''),
                         (''style'', JStr ''muted'')]]))"

text \<open>
  The body that \<open>/api/initialize\<close> hands to \<open>res.json\<close>, given what the fetch of the first
  twenty tickets met: the home buttons followed by the recent tickets, built from the
  first five tickets and the stored \<open>hasMore\<close>; the page of the catch block when the fetch
  or the building throws.
\<close>

definition initialize_error :: json where
  "initialize_error = canvas
     [JObj [(''type'', JStr ''text''), (''id'', JStr ''error''),
            (''text'', JStr ''Error loading Freshdesk integration. Please try again.''),
            (''align'', JStr ''center''), (''style'', JStr ''header'')]]"

definition initialize_reply ::
  "formatting \<Rightarrow> string \<Rightarrow> string \<Rightarrow> error + ticket list \<Rightarrow> json" where
  "initialize_reply fmt domain email fetched =
     (case fetched of
        Inl thrown \<Rightarrow> initialize_error
      | Inr tickets \<Rightarrow>
          (case buildRecentTicketsComponent fmt domain (slice tickets 0 5)
                  (hasMore (initialize_state email fetched)) of
             Inl thrown \<Rightarrow> initialize_error
           | Inr recent \<Rightarrow> canvas (home_buttons @ recent)))"

text \<open>
  The page that \<open>add_to_existing_ticket\<close> hands to \<open>sendResponse\<close> after a successful fetch:
  a button for each of the first five tickets, the load-more button when the stored
  \<open>hasMore\<close> is set, and the back button; a text in place of the buttons when nothing was
  fetched.
\<close>

definition add_to_existing_page :: "string \<Rightarrow> ticket list \<Rightarrow> json" where
  "add_to_existing_page email tickets =
     (if length tickets > 0
      then canvas
        ([JObj [(''type'', JStr ''text''),
                (''text'', JStr ''Select a ticket to merge this conversation into:''),
                (''style'', JStr ''header'')]]
         @ concat (map (\<lambda>t. [select_ticket_button t, spacer ''s'']) (slice tickets 0 5))
         @ (if hasMore (add_to_existing_state email (Inr tickets))
            then [spacer ''m'', load_more_tickets_button] else [])
         @ [spacer ''m'', back_to_home_button])
      else canvas
        [JObj [(''type'', JStr ''text''), (''text'', JStr ''No existing tickets found for this user.''),
               (''align'', JStr ''center'')],
         spacer ''m'', back_to_home_button])"

text \<open>Twenty tickets and a date formatting used where a property is evaluated on concrete data.\<close>

definition twenty_tickets :: "ticket list" where
  "twenty_tickets =
     map (\<lambda>i. \<lparr>ticket_id = i, subject = ''Printer on fire'', created_at = ''2024-01-01T00:00:00Z''\<rparr>)
         [1, 2, 3, 4, 5, 6, 7, 8, 9, 10, 11, 12, 13, 14, 15, 16, 17, 18, 19, 20]"

definition kolkata :: formatting where
  "kolkata = \<lparr>toLocaleString = (\<lambda>created. ''01/01/2024, 05:30 am''),
              toUpperCase = (\<lambda>s. if s = ''am'' then ''AM'' else s)\<rparr>"

section \<open>Extracting inline images\<close>

text \<open>
  Letter case as the regular expressions' \<open>i\<close> flag sees it for the letters of their
  literals, and \<open>toLowerCase\<close> on code units below 256.
\<close>

definition ascii_lower :: "char \<Rightarrow> char" where
  "ascii_lower c =
     (case map_of (zip ''ABCDEFGHIJKLMNOPQRSTUVWXYZ'' ''abcdefghijklmnopqrstuvwxyz'') c of
        Some l \<Rightarrow> l
      | None \<Rightarrow> c)"

definition js_lower :: "char \<Rightarrow> char" where
  "js_lower c =
     (case map_of (zip
        [CHR 0xC0, CHR 0xC1, CHR 0xC2, CHR 0xC3, CHR 0xC4, CHR 0xC5, CHR 0xC6, CHR 0xC7,
         CHR 0xC8, CHR 0xC9, CHR 0xCA, CHR 0xCB, CHR 0xCC, CHR 0xCD, CHR 0xCE, CHR 0xCF,
         CHR 0xD0, CHR 0xD1, CHR 0xD2, CHR 0xD3, CHR 0xD4, CHR 0xD5, CHR 0xD6,
         CHR 0xD8, CHR 0xD9, CHR 0xDA, CHR 0xDB, CHR 0xDC, CHR 0xDD, CHR 0xDE]
        [CHR 0xE0, CHR 0xE1, CHR 0xE2, CHR 0xE3, CHR 0xE4, CHR 0xE5, CHR 0xE6, CHR 0xE7,
         CHR 0xE8, CHR 0xE9, CHR 0xEA, CHR 0xEB, CHR 0xEC, CHR 0xED, CHR 0xEE, CHR 0xEF,
         CHR 0xF0, CHR 0xF1, CHR 0xF2, CHR 0xF3, CHR 0xF4, CHR 0xF5, CHR 0xF6,
         CHR 0xF8, CHR 0xF9, CHR 0xFA, CHR 0xFB, CHR 0xFC, CHR 0xFD, CHR 0xFE]) c of
        Some l \<Rightarrow> l
      | None \<Rightarrow> ascii_lower c)"

text \<open>A lower-case literal matches the start of a string, ignoring case.\<close>

definition ci_prefix :: "string \<Rightarrow> string \<Rightarrow> bool" where
  "ci_prefix lit s = (length lit \<le> length s \<and> map ascii_lower (take (length lit) s) = lit)"

definition src_eq :: string where
  "src_eq = ''src='' @ dq"

text \<open>
  The regular expression \<open><img\s+[^>]*src="([^"]+)"[^>]*>\<close> with flags \<open>g\<close> and \<open>i\<close>.
  \<open>after_src\<close> matches what follows \<open>src="\<close>: a non-empty run without a double quote (the
  captured address), the quote, a run without \<open>>\<close> and the \<open>>\<close>; it returns the address
  and the text after the match. Both runs are greedy and can only end at their
  delimiter, so there is at most one way to match.
\<close>

definition after_src :: "string \<Rightarrow> (string \<times> string) option" where
  "after_src x =
     (let url = takeWhile (\<lambda>c. c \<noteq> CHR 0x22) x;
          r1 = dropWhile (\<lambda>c. c \<noteq> CHR 0x22) x
      in if url = [] \<or> r1 = [] then None
         else (let r3 = dropWhile (\<lambda>c. c \<noteq> CHR ''>'') (tl r1)
               in if r3 = [] then None else Some (url, tl r3)))"

text \<open>
  \<open>last_src\<close> matches \<open>[^>]*src="...\<close>: the greedy run tries the longest prefix without
  \<open>>\<close> first, so the match uses the last \<open>src="\<close> before the first \<open>>\<close> after which the
  rest of the expression matches.
\<close>

fun last_src :: "string \<Rightarrow> (string \<times> string) option" where
  "last_src [] = None"
| "last_src (c # t) =
     (case (if c = CHR ''>'' then None else last_src t) of
        Some m \<Rightarrow> Some m
      | None \<Rightarrow> if ci_prefix src_eq (c # t) then after_src (drop 5 (c # t)) else None)"

text \<open>
  A match starting at the head of the string: the whole matched tag, the captured
  address, and the text after the match. The white space after \<open><img\<close> beyond its first
  character is matched by either of the two runs that follow, with the same result.
\<close>

definition match_here :: "string \<Rightarrow> (string \<times> string \<times> string) option" where
  "match_here s =
     (if ci_prefix ''<img'' s \<and> 4 < length s \<and> is_space (s ! 4)
      then (case last_src (drop 5 s) of
              Some (url, rest) \<Rightarrow> Some (take (length s - length rest) s, url, rest)
            | None \<Rightarrow> None)
      else None)"

lemma after_src_shorter: "after_src x = Some (url, rest) \<Longrightarrow> length rest < length x"
proof -
  assume a: "after_src x = Some (url, rest)"
  let ?r1 = "dropWhile (\<lambda>c. c \<noteq> CHR 0x22) x"
  let ?r3 = "dropWhile (\<lambda>c. c \<noteq> CHR ''>'') (tl ?r1)"
  from a have r: "?r1 \<noteq> []" "?r3 \<noteq> []" "rest = tl ?r3"
    by (auto simp add: after_src_def Let_def split: if_splits)
  have "length ?r3 \<le> length (tl ?r1)" by (rule length_dropWhile_le)
  moreover have "length (tl ?r1) < length ?r1" using r(1) by (cases ?r1) auto
  moreover have "length ?r1 \<le> length x" by (rule length_dropWhile_le)
  moreover have "length (tl ?r3) < length ?r3" using r(2) by (cases ?r3) auto
  ultimately show ?thesis using r(3) by simp
qed

lemma last_src_shorter: "last_src t = Some (url, rest) \<Longrightarrow> length rest < length t"
proof (induction t)
  case Nil
  then show ?case by simp
next
  case (Cons c t)
  show ?case
  proof (cases "if c = CHR ''>'' then None else last_src t")
    case None
    with Cons.prems have "after_src (drop 5 (c # t)) = Some (url, rest)"
      by (simp split: if_splits)
    from after_src_shorter [OF this] show ?thesis by simp
  next
    case (Some m)
    with Cons.prems have "last_src t = Some (url, rest)" by (simp split: if_splits)
    from Cons.IH [OF this] show ?thesis by simp
  qed
qed

lemma match_here_shorter: "match_here s = Some (tag, url, rest) \<Longrightarrow> length rest < length s"
  by (auto simp add: match_here_def split: if_splits option.splits dest!: last_src_shorter)

text \<open>
  The loop \<open>while ((match = imgTagRegex.exec(htmlContent)) !== null)\<close>: the matches from
  left to right, each search starting where the previous match ended.
\<close>

function img_matches :: "string \<Rightarrow> (string \<times> string) list" where
  "img_matches [] = []"
| "img_matches (c # s) =
     (case match_here (c # s) of
        Some (tag, url, rest) \<Rightarrow> (tag, url) # img_matches rest
      | None \<Rightarrow> img_matches s)"
  by pat_completeness auto
termination
  by (relation "measure length") (auto dest: match_here_shorter)

declare img_matches.simps(2) [simp del]

text \<open>
  The platform functions the extraction calls: the HTML entity decoder, the URL parser
  (the path of the parsed address, or \<open>None\<close> when the constructor throws) and the URI
  component decoder (\<open>None\<close> when it throws).
\<close>

record platform =
  he_decode :: "string \<Rightarrow> string"
  url_pathname :: "string \<Rightarrow> string option"
  decodeURIComponent :: "string \<Rightarrow> string option"

text \<open>\<open>s.substring(s.lastIndexOf(c) + 1)\<close>: the text after the last \<open>c\<close>, or all of \<open>s\<close>.\<close>

definition after_last :: "char \<Rightarrow> string \<Rightarrow> string" where
  "after_last c s = rev (takeWhile (\<lambda>x. x \<noteq> c) (rev s))"

text \<open>
  The extension of a file name: the lower-cased text after its last dot when there is a
  dot and text after it, the extension found so far otherwise.
\<close>

definition extension_from :: "string \<Rightarrow> string \<Rightarrow> string" where
  "extension_from originalFilename extension =
     (if CHR ''.'' \<in> set originalFilename \<and> after_last CHR ''.'' originalFilename \<noteq> []
      then map js_lower (after_last CHR ''.'' originalFilename)
      else extension)"

text \<open>
  The fallback expression: one or more characters other than slash, backslash,
  ampersand, question mark and hash, then a dot, then one of \<open>jpg|jpeg|gif|png|bmp|webp|svg\<close>,
  then, as a lookahead, a question mark, a hash or the end of the string; with flag
  \<open>i\<close>. It is matched as the engine does: at a start position the run of name characters
  is tried from its longest length down, and at each length the dot, the alternatives in
  order and the lookahead are tested.
\<close>

definition name_char :: "char \<Rightarrow> bool" where
  "name_char c = (c \<notin> {CHR ''/'', CHR 0x5C, CHR ''&'', CHR ''?'', CHR ''#''})"

definition image_extensions :: "string list" where
  "image_extensions = [''jpg'', ''jpeg'', ''gif'', ''png'', ''bmp'', ''webp'', ''svg'']"

definition lookahead_ok :: "string \<Rightarrow> bool" where
  "lookahead_ok s = (case s of [] \<Rightarrow> True | c # rest \<Rightarrow> c = CHR ''?'' \<or> c = CHR ''#'')"

definition dot_extension :: "string \<Rightarrow> string option" where
  "dot_extension s =
     (case s of
        [] \<Rightarrow> None
      | c # rest \<Rightarrow>
          if c = CHR ''.''
          then find (\<lambda>e. ci_prefix e rest \<and> lookahead_ok (drop (length e) rest)) image_extensions
          else None)"

fun longest_name :: "string \<Rightarrow> nat \<Rightarrow> string option" where
  "longest_name s 0 = None"
| "longest_name s (Suc k) =
     (case dot_extension (drop (Suc k) s) of
        Some e \<Rightarrow> Some (take (Suc k + 1 + length e) s)
      | None \<Rightarrow> longest_name s k)"

fun fallback_match :: "string \<Rightarrow> string option" where
  "fallback_match [] = None"
| "fallback_match (c # s) =
     (case longest_name (c # s) (length (takeWhile name_char (c # s))) of
        Some m \<Rightarrow> Some m
      | None \<Rightarrow> fallback_match s)"

text \<open>The extension computed for a decoded address (the default is \<open>png\<close>).\<close>

definition extension_of :: "platform \<Rightarrow> string \<Rightarrow> string" where
  "extension_of lib originalUrl =
     (let fallback = (case fallback_match originalUrl of
                        Some m \<Rightarrow> extension_from m ''png''
                      | None \<Rightarrow> ''png'')
      in case url_pathname lib originalUrl of
           None \<Rightarrow> fallback
         | Some pathname \<Rightarrow>
             (let filenameFromPath = after_last CHR ''/'' pathname
              in if filenameFromPath = [] then ''png''
                 else (case decodeURIComponent lib filenameFromPath of
                         None \<Rightarrow> fallback
                       | Some originalFilename \<Rightarrow> extension_from originalFilename ''png'')))"

record image =
  image_url :: string
  image_filename :: string

record extraction =
  modifiedHtml :: json
  extractedImages :: "image list"
  nextIndex :: nat

text \<open>
  The running index is a number holding a non-negative integer; the only caller counts
  from 1. \<open>currentIndex++\<close> stores the double nearest to the successor: the successor
  itself below \<open>2^53\<close>, while from \<open>2^53\<close> on the successor is not a double any more. In the
  template literal the text of the index is its decimal digits (as it is for every
  integer below \<open>10^21\<close>).
\<close>

definition increment :: "nat \<Rightarrow> nat" where
  "increment n = nat \<lfloor>fl (real n + 1)\<rfloor>"

definition sequentialFilename :: "nat \<Rightarrow> string \<Rightarrow> string" where
  "sequentialFilename currentIndex extension = ''image '' @ string_of_nat currentIndex @ ''.'' @ extension"

definition placeholderText :: "string \<Rightarrow> string" where
  "placeholderText filename = ''[Inline image: '' @ filename @ '']''"

text \<open>
  The loop over the matches: each match's tag is replaced in the current html by its
  placeholder with \<open>String.prototype.replace\<close>, and its image is recorded.
\<close>

fun replace_images ::
  "platform \<Rightarrow> (string \<times> string) list \<Rightarrow> nat \<Rightarrow> string \<Rightarrow> image list \<Rightarrow> string \<times> image list \<times> nat" where
  "replace_images lib [] currentIndex html images = (html, images, currentIndex)"
| "replace_images lib ((fullTag, url) # rest) currentIndex html images =
     (let originalUrl = he_decode lib url;
          filename = sequentialFilename currentIndex (extension_of lib originalUrl)
      in replace_images lib rest (increment currentIndex)
           (js_replace html fullTag (placeholderText filename))
           (images @ [\<lparr>image_url = originalUrl, image_filename = filename\<rparr>]))"

text \<open>Falsy values, for \<open>htmlContent || ''\<close>.\<close>

fun falsy :: "json \<Rightarrow> bool" where
  "falsy JUndefined = True"
| "falsy JNull = True"
| "falsy (JBool b) = (\<not> b)"
| "falsy (JNum n) = (n = 0)"
| "falsy (JStr s) = (s = [])"
| "falsy _ = False"

definition extractInlineImages :: "platform \<Rightarrow> json \<Rightarrow> nat \<Rightarrow> extraction" where
  "extractInlineImages lib htmlContent startIndex =
     (case htmlContent of
        JStr s \<Rightarrow>
          if s = []
          then \<lparr>modifiedHtml = JStr [], extractedImages = [], nextIndex = startIndex\<rparr>
          else (case replace_images lib (img_matches s) startIndex s [] of
                  (html, images, currentIndex) \<Rightarrow>
                    \<lparr>modifiedHtml = JStr html, extractedImages = images, nextIndex = currentIndex\<rparr>)
      | other \<Rightarrow>
          \<lparr>modifiedHtml = (if falsy other then JStr [] else other),
           extractedImages = [], nextIndex = startIndex\<rparr>)"

text \<open>
  For comparison: the html in which every matched tag is replaced, at the place where
  it was matched, by the corresponding text of a list.
\<close>

function spliced :: "string \<Rightarrow> string list \<Rightarrow> string" where
  "spliced [] phs = []"
| "spliced (c # s) phs =
     (case match_here (c # s) of
        Some (tag, url, rest) \<Rightarrow> (case phs of [] \<Rightarrow> tag | ph # others \<Rightarrow> ph) @ spliced rest (tl phs)
      | None \<Rightarrow> c # spliced s phs)"
  by pat_completeness auto
termination
  by (relation "measure (\<lambda>(s, phs). length s)") (auto dest: match_here_shorter)

declare spliced.simps(2) [simp del]

definition web :: platform where
  "web =
     \<lparr>he_decode = (\<lambda>s. s),
      url_pathname = (\<lambda>s. if take 17 s = ''https://cdn.test/'' then Some (drop 16 s) else None),
      decodeURIComponent = (\<lambda>s. if CHR ''%'' \<in> set s then None else Some s)\<rparr>"

text \<open>
  Notions used to describe the extraction: the replacements of the loop as one fold, the
  file names given to a list of matches from an index on, a text that is a match of the
  image expression, and a placeholder that \<open>replace\<close> inserts as it is and that cannot
  hold the start of a tag.
\<close>

definition replace_all :: "string \<Rightarrow> (string \<times> string) list \<Rightarrow> string" where
  "replace_all html pairs = foldl (\<lambda>h (tag, ph). js_replace h tag ph) html pairs"

fun filenames :: "platform \<Rightarrow> (string \<times> string) list \<Rightarrow> nat \<Rightarrow> string list" where
  "filenames lib [] k = []"
| "filenames lib ((tag, url) # ms) k =
     sequentialFilename k (extension_of lib (he_decode lib url)) # filenames lib ms (Suc k)"

definition is_img_tag :: "string \<Rightarrow> bool" where
  "is_img_tag t \<longleftrightarrow>
     (\<exists>h c0 pre sr url tail.
        t = h @ c0 # pre @ sr @ url @ CHR 0x22 # tail @ [CHR ''>'']
        \<and> map ascii_lower h = ''<img'' \<and> is_space c0 \<and> CHR ''>'' \<notin> set pre
        \<and> map ascii_lower sr = src_eq \<and> url \<noteq> [] \<and> CHR 0x22 \<notin> set url
        \<and> CHR ''>'' \<notin> set tail)"

definition plain :: "string \<Rightarrow> bool" where
  "plain ph \<longleftrightarrow> CHR ''$'' \<notin> set ph \<and> CHR ''<'' \<notin> set ph"

text \<open>Two pieces of html on which the extraction is evaluated.\<close>

definition two_images_html :: string where
  "two_images_html =
     ''a<img src='' @ dq @ ''https://cdn.test/x.gif'' @ dq @ ''>b<IMG  SRC='' @ dq @ ''v'' @ dq @ ''/>c''"

definition dollar_html :: string where
  "dollar_html = ''a<img src='' @ dq @ ''https://cdn.test/x.$&'' @ dq @ ''>b''"


section \<open>Properties of rounding\<close>

lemma round_half_even_bounds:
  "\<lfloor>y\<rfloor> \<le> round_half_even y" "round_half_even y \<le> \<lfloor>y\<rfloor> + 1"
  by (simp_all add: round_half_even_def Let_def)

lemma round_half_even_mono:
  assumes "a \<le> b"
  shows "round_half_even a \<le> round_half_even b"
proof (cases "\<lfloor>a\<rfloor> < \<lfloor>b\<rfloor>")
  case True
  have "round_half_even a \<le> \<lfloor>a\<rfloor> + 1" by (rule round_half_even_bounds)
  also have "\<dots> \<le> \<lfloor>b\<rfloor>" using True by simp
  also have "\<dots> \<le> round_half_even b" by (rule round_half_even_bounds)
  finally show ?thesis .
next
  case False
  then have "\<lfloor>a\<rfloor> = \<lfloor>b\<rfloor>" using floor_mono [OF assms] by simp
  then show ?thesis using assms by (simp add: round_half_even_def Let_def)
qed

lemma round_half_even_of_int [simp]: "round_half_even (of_int n) = n"
  by (simp add: round_half_even_def)

lemma grid_mono: "0 < u \<Longrightarrow> a \<le> b \<Longrightarrow> grid u a \<le> grid u b"
  unfolding grid_def
  by (intro mult_left_mono) (auto intro!: round_half_even_mono divide_right_mono)

lemma grid_fix: "0 < u \<Longrightarrow> grid u (u * of_int n) = u * of_int n"
  by (simp add: grid_def)

lemma fl_grid: "fl x = grid (binade \<bar>x\<bar> / 2 ^ 52) x"
  by (simp add: fl_def grid_def Let_def)

lemma binade_up_char:
  "p = 2 powr of_int i \<Longrightarrow> p \<le> x \<Longrightarrow>
   \<exists>k. k \<le> n \<and> binade_up n x p = 2 powr of_int (i + int k) \<and> binade_up n x p \<le> x
        \<and> (x < 2 * binade_up n x p \<or> k = n)"
proof (induction n arbitrary: p i)
  case 0
  then show ?case by simp
next
  case (Suc n)
  show ?case
  proof (cases "x < 2 * p")
    case True
    then show ?thesis using Suc.prems by (intro exI [of _ 0]) simp
  next
    case False
    then have le: "2 * p \<le> x" by simp
    have "2 * p = 2 powr of_int (i + 1)" using Suc.prems(1) by (simp add: powr_add)
    from Suc.IH [OF this le] obtain k where k: "k \<le> n"
      "binade_up n x (2 * p) = 2 powr of_int (i + 1 + int k)" "binade_up n x (2 * p) \<le> x"
      "x < 2 * binade_up n x (2 * p) \<or> k = n" by blast
    have e: "i + 1 + int k = i + int (Suc k)" by simp
    have r: "binade_up (Suc n) x p = binade_up n x (2 * p)" using False by simp
    show ?thesis unfolding r using k unfolding e by (intro exI [of _ "Suc k"]) simp
  qed
qed

lemma binade_down_char:
  "p = 2 powr of_int i \<Longrightarrow> x < 2 * p \<Longrightarrow>
   \<exists>k. k \<le> n \<and> binade_down n x p = 2 powr of_int (i - int k) \<and> x < 2 * binade_down n x p
        \<and> (binade_down n x p \<le> x \<or> k = n)"
proof (induction n arbitrary: p i)
  case 0
  then show ?case by simp
next
  case (Suc n)
  show ?case
  proof (cases "p \<le> x")
    case True
    then show ?thesis using Suc.prems by (intro exI [of _ 0]) simp
  next
    case False
    then have lt: "x < 2 * (p / 2)" by simp
    have "p / 2 = 2 powr of_int (i - 1)" using Suc.prems(1) by (simp add: powr_diff)
    from Suc.IH [OF this lt] obtain k where k: "k \<le> n"
      "binade_down n x (p / 2) = 2 powr of_int (i - 1 - int k)" "x < 2 * binade_down n x (p / 2)"
      "binade_down n x (p / 2) \<le> x \<or> k = n" by blast
    have e: "i - 1 - int k = i - int (Suc k)" by simp
    have r: "binade_down (Suc n) x p = binade_down n x (p / 2)" using False by simp
    show ?thesis unfolding r using k unfolding e by (intro exI [of _ "Suc k"]) simp
  qed
qed

lemma binade_range:
  "\<exists>i. - int m \<le> i \<and> i \<le> int n
       \<and> (if 1 \<le> x then binade_up n x 1 else binade_down m x 1) = 2 powr of_int i
       \<and> ((if 1 \<le> x then binade_up n x 1 else binade_down m x 1) \<le> x \<or> i = - int m)
       \<and> (x < 2 * (if 1 \<le> x then binade_up n x 1 else binade_down m x 1) \<or> i = int n)"
proof (cases "1 \<le> x")
  case True
  have "(1::real) = 2 powr of_int 0" by simp
  from binade_up_char [OF this True, of n] obtain k where k: "k \<le> n"
    "binade_up n x 1 = 2 powr of_int (0 + int k)" "binade_up n x 1 \<le> x"
    "x < 2 * binade_up n x 1 \<or> k = n" by blast
  show ?thesis using True k by (intro exI [of _ "int k"]) auto
next
  case False
  then have lt: "x < 2 * 1" by simp
  have "(1::real) = 2 powr of_int 0" by simp
  from binade_down_char [OF this lt, of m] obtain k where k: "k \<le> m"
    "binade_down m x 1 = 2 powr of_int (0 - int k)" "x < 2 * binade_down m x 1"
    "binade_down m x 1 \<le> x \<or> k = m" by blast
  show ?thesis using False k by (intro exI [of _ "- int k"]) auto
qed

lemma binade_char:
  "\<exists>i. - 1022 \<le> i \<and> i \<le> 1023 \<and> binade x = 2 powr of_int i
       \<and> (binade x \<le> x \<or> i = - 1022) \<and> (x < 2 * binade x \<or> i = 1023)"
proof -
  have m: "int 1022 = 1022" and n: "int 1023 = 1023" by simp_all
  show ?thesis
    using binade_range [of 1022 1023 x] unfolding binade_def [symmetric] m n .
qed

lemma binade_pos: "0 < binade x"
  using binade_char [of x] by auto

lemma fl_mono:
  assumes "0 \<le> x" and "x \<le> y"
  shows "fl x \<le> fl y"
proof -
  obtain i where i: "- 1022 \<le> i" "i \<le> 1023" "binade x = 2 powr of_int i"
    "binade x \<le> x \<or> i = - 1022" "x < 2 * binade x \<or> i = 1023"
    using binade_char [of x] by blast
  obtain j where j: "- 1022 \<le> j" "j \<le> 1023" "binade y = 2 powr of_int j"
    "binade y \<le> y \<or> j = - 1022" "y < 2 * binade y \<or> j = 1023"
    using binade_char [of y] by blast
  have ax: "\<bar>x\<bar> = x" and ay: "\<bar>y\<bar> = y" using assms by auto
  let ?u = "binade x / 2 ^ 52" and ?v = "binade y / 2 ^ 52"
  have u: "0 < ?u" and v: "0 < ?v" using binade_pos by simp_all
  consider "i = j" | "i < j" | "j < i" by linarith
  then show ?thesis
  proof cases
    case 1
    then have "binade x = binade y" using i(3) j(3) by simp
    then show ?thesis unfolding fl_grid ax ay using grid_mono [OF v assms(2)] by simp
  next
    case 2
    then have x2: "x < 2 * binade x" using i(5) j(2) by auto
    have yq: "binade y \<le> y" using 2 j(4) i(1) by auto
    have "2 * binade x = 2 powr of_int (i + 1)" using i(3) by (simp add: powr_add)
    also have "\<dots> \<le> 2 powr of_int j" using 2 by (intro powr_mono) auto
    finally have pq: "2 * binade x \<le> binade y" using j(3) by simp
    have "fl x \<le> grid ?u (2 * binade x)"
      unfolding fl_grid ax using x2 by (intro grid_mono [OF u]) simp
    also have "2 * binade x = ?u * of_int (2 ^ 53)" by simp
    also have "grid ?u (?u * of_int (2 ^ 53)) = ?u * of_int (2 ^ 53)" by (rule grid_fix [OF u])
    also have "\<dots> = 2 * binade x" by simp
    also have "\<dots> \<le> binade y" by (rule pq)
    also have "binade y = ?v * of_int (2 ^ 52)" by simp
    also have "\<dots> = grid ?v (?v * of_int (2 ^ 52))" by (rule grid_fix [OF v, symmetric])
    also have "?v * of_int (2 ^ 52) = binade y" by simp
    also have "grid ?v (binade y) \<le> fl y"
      unfolding fl_grid ay using yq by (intro grid_mono [OF v])
    finally show ?thesis .
  next
    case 3
    then have "binade x \<le> x" using i(4) j(1) by auto
    moreover have "y < 2 * binade y" using 3 j(5) i(2) by auto
    moreover have "2 * binade y = 2 powr of_int (j + 1)" using j(3) by (simp add: powr_add)
    moreover have "2 powr of_int (j + 1) \<le> (2::real) powr of_int i" using 3 by (intro powr_mono) auto
    ultimately have "y < x" using i(3) by linarith
    then show ?thesis using assms by simp
  qed
qed

lemma binade_up_unfold:
  "binade_up n x p = (if n = 0 then p else if x < 2 * p then p else binade_up (n - 1) x (2 * p))"
  by (cases n) simp_all

lemma binade_down_unfold:
  "binade_down n x p = (if n = 0 then p else if p \<le> x then p else binade_down (n - 1) x (p / 2))"
  by (cases n) simp_all

lemmas fl_eval = fl_def binade_def binade_up_unfold binade_down_unfold round_half_even_def Let_def

lemma fl_0 [simp]: "fl 0 = 0"
  by (simp add: fl_def round_half_even_def)

text \<open>Evaluation of the rounding on numerals, and the doubles used below.\<close>



lemma fl_fixed:
  "fl 500 = 500" "fl 800 = 800" "fl 1000 = 1000" "fl 1200 = 1200" "fl 1280 = 1280"
  "fl 1600 = 1600" "fl 2400 = 2400" "fl 2880 = 2880" "fl 10000 = 10000" "fl 12000 = 12000"
  by (simp_all add: fl_eval)

lemma fl_literals:
  "fl 0.8 = 3602879701896397 / 4503599627370496"
  "fl 0.4 = 3602879701896397 / 9007199254740992"
  "fl (4 / 5) = 3602879701896397 / 4503599627370496"
  "fl (2 / 5) = 3602879701896397 / 9007199254740992"
  by (simp_all add: fl_eval)

lemma fl_08_fixed: "fl (3602879701896397 / 4503599627370496) = 3602879701896397 / 4503599627370496"
  by (simp add: fl_eval)

lemma binade_half:
  assumes "1 / 2 \<le> r" and "r < 1"
  shows "binade r = 1 / 2"
proof -
  have "binade_down (Suc (Suc n)) r 1 = 1 / 2" for n using assms by simp
  from this [of 1020] have "binade_down 1022 r 1 = 1 / 2" by simp
  then show ?thesis using assms(2) by (simp add: binade_def)
qed

lemma fl_12:
  "fl 1.2 = 5404319552844595 / 4503599627370496"
  "fl (6 / 5) = 5404319552844595 / 4503599627370496"
  by (simp_all add: fl_eval)

text \<open>Every integer from 0 to \<open>2^53\<close> is a double.\<close>

lemma fl_nat:
  assumes "m \<le> 2 ^ 53"
  shows "fl (real m) = real m"
proof (cases "m = 0")
  case True
  then show ?thesis by simp
next
  case False
  then have one: "1 \<le> real m" by simp
  have "(1::real) = 2 powr of_int 0" by simp
  from binade_up_char [OF this one, of 1023] obtain k where k:
    "binade_up 1023 (real m) 1 = 2 powr of_int (0 + int k)" "binade_up 1023 (real m) 1 \<le> real m"
    by blast
  have b: "binade \<bar>real m\<bar> = 2 ^ k"
    using one k(1) by (simp add: binade_def powr_realpow)
  have "(2::real) ^ k \<le> real m" using k(2) b one by (simp add: binade_def)
  also have "real m \<le> 2 ^ 53" using assms by (metis of_nat_le_iff of_nat_numeral of_nat_power)
  finally have "(2::real) ^ k \<le> 2 ^ 53" .
  then have k53: "k \<le> 53" by (rule power_le_imp_le_exp [rotated]) simp
  obtain N :: int where N: "real m / (2 ^ k / 2 ^ 52) = of_int N"
  proof (cases "k \<le> 52")
    case True
    have "real m / (2 ^ k / 2 ^ 52) = real m * (2 ^ 52 / 2 ^ k)" by simp
    also have "(2::real) ^ 52 / 2 ^ k = 2 ^ (52 - k)" using True by (simp add: power_diff)
    also have "real m * 2 ^ (52 - k) = of_int (int m * 2 ^ (52 - k))" by simp
    finally show ?thesis by (rule that)
  next
    case False
    then have k: "k = 53" using k53 by simp
    have "(2::real) ^ 53 \<le> real m" using \<open>(2::real) ^ k \<le> real m\<close> unfolding k .
    then have "real m = 2 ^ 53" using \<open>real m \<le> 2 ^ 53\<close> by simp
    then have "real m / (2 ^ k / 2 ^ 52) = of_int (2 ^ 52)" unfolding k by simp
    then show ?thesis by (rule that)
  qed
  have "fl (real m) = (2 ^ k / 2 ^ 52) * of_int N"
    unfolding fl_def b Let_def N by simp
  also have "\<dots> = (2 ^ k / 2 ^ 52) * (real m / (2 ^ k / 2 ^ 52))" unfolding N ..
  also have "\<dots> = real m" by simp
  finally show ?thesis .
qed

text \<open>
  Values known from the program's arithmetic: \<open>0.1 + 0.2\<close> is the double above \<open>0.3\<close>, and
  \<open>2^53 + 1\<close> and \<open>2^53 + 3\<close> lie half-way between two doubles and go to the even one.
\<close>

lemma fl_known_values:
  "js_add (fl 0.1) (fl 0.2) = 5404319552844596 / 18014398509481984"
  "fl 0.3 = 5404319552844595 / 18014398509481984"
  "fl (2 ^ 53 + 1) = 2 ^ 53"
  "fl (2 ^ 53 + 3) = 2 ^ 53 + 4"
  by (simp_all add: js_add_def fl_eval)


section \<open>Properties of the pagination state\<close>

lemma slice_0 [simp]: "slice xs 0 n = take n xs"
  by (simp add: slice_def)

lemma load_more_advance_simps [simp]:
  "currentOffset (load_more_advance st) = min (currentOffset st + 5) (length (allTickets st))"
  "allTickets (load_more_advance st) = allTickets st"
  "customerEmail (load_more_advance st) = customerEmail st"
  "hasMore (load_more_advance st) = (min (currentOffset st + 5) (length (allTickets st)) < length (allTickets st))"
  by (simp_all add: load_more_advance_def Let_def)

lemma initialize_state_simps [simp]:
  "currentOffset (initialize_state e (Inr ts)) = 5"
  "allTickets (initialize_state e (Inr ts)) = ts"
  "hasMore (initialize_state e (Inr ts)) = (5 < length ts)"
  "currentOffset (initialize_state e (Inl err)) = 0"
  "allTickets (initialize_state e (Inl err)) = []"
  by (simp_all add: initialize_state_def Let_def)

lemma add_to_existing_state_simps [simp]:
  "currentOffset (add_to_existing_state e (Inr ts)) = (if ts = [] then 0 else 5)"
  "allTickets (add_to_existing_state e (Inr ts)) = ts"
  "currentOffset (add_to_existing_state e (Inl err)) = 0"
  "allTickets (add_to_existing_state e (Inl err)) = []"
  by (simp_all add: add_to_existing_state_def Let_def)

lemma load_more_window_eq:
  "load_more_window st =
     take (min 5 (length (allTickets st) - currentOffset st)) (drop (currentOffset st) (allTickets st))"
  by (simp add: load_more_window_def slice_def Let_def min_def)

lemma upstream_calls_load_more_tickets: "upstream_calls (snd (load_more_tickets L)) = []"
  by (simp add: load_more_tickets_def upstream_calls_def Let_def split: option.splits)

lemma upstream_calls_load_more_home: "upstream_calls (snd (load_more_home_tickets b L)) = []"
  by (simp add: load_more_home_tickets_def upstream_calls_def Let_def split: option.splits sum.splits)

lemma load_more_tickets_state:
  "mergePageState (fst (load_more_tickets L)) = map_option load_more_advance (mergePageState L)"
  by (simp add: load_more_tickets_def Let_def split: option.splits)

lemma load_more_home_tickets_state:
  "homePageState (fst (load_more_home_tickets b L)) = map_option load_more_advance (homePageState L)"
  by (simp add: load_more_home_tickets_def Let_def split: option.splits)

lemma ticket_entries_formatted:
  "\<forall>t\<in>set ts. ticket_date_text fmt (created_at t) = Inr (dateLine t) \<Longrightarrow>
   ticket_entries fmt domain ts = Inr (concat (map (\<lambda>t. ticket_entry domain t (dateLine t)) ts))"
  by (induction ts) simp_all

lemma buildRecentTicketsComponent_formatted:
  assumes "\<forall>t\<in>set ts. ticket_date_text fmt (created_at t) = Inr (dateLine t)" and "ts \<noteq> []"
  shows "buildRecentTicketsComponent fmt domain ts showMore =
           Inr (recent_header @ concat (map (\<lambda>t. ticket_entry domain t (dateLine t)) ts)
                @ (if showMore then [spacer ''m'', load_more_home_button] else []))"
  using assms(2) by (simp add: buildRecentTicketsComponent_def ticket_entries_formatted [OF assms(1)])

lemma load_more_home_tickets_step:
  assumes "homePageState L = Some st"
  shows "load_more_home_tickets b L =
           (L\<lparr>homePageState := Some (load_more_advance st)\<rparr>,
            [SendResponse
               (case b (take (min (currentOffset st + 5) (length (allTickets st))) (allTickets st))
                       (min (currentOffset st + 5) (length (allTickets st)) < length (allTickets st)) of
                  Inr recent \<Rightarrow> canvas (home_buttons @ recent)
                | Inl thrown \<Rightarrow> load_more_home_error)])"
  using assms by (simp add: load_more_home_tickets_def Let_def split: sum.splits)

lemma load_more_tickets_step:
  assumes "mergePageState L = Some st"
  shows "load_more_tickets L =
           (L\<lparr>mergePageState := Some (load_more_advance st)\<rparr>,
            [SendResponse (merge_page (load_more_advance st))])"
  using assms by (simp add: load_more_tickets_def Let_def)

lemma load_more_advance_record:
  "load_more_advance \<lparr>customerEmail = e, currentOffset = n, allTickets = ts, hasMore = showMore\<rparr> =
     \<lparr>customerEmail = e, currentOffset = min (n + 5) (length ts), allTickets = ts,
      hasMore = (min (n + 5) (length ts) < length ts)\<rparr>"
  by (simp add: load_more_advance_def Let_def)

lemma merge_page_record:
  "merge_page \<lparr>customerEmail = e, currentOffset = n, allTickets = ts, hasMore = showMore\<rparr> =
     canvas ([JObj [(''type'', JStr ''text''),
                    (''text'', JStr ''Select a ticket to merge this conversation into:''),
                    (''style'', JStr ''header'')]]
             @ concat (map (\<lambda>t. [select_ticket_button t, spacer ''s'']) (take n ts))
             @ (if showMore then [spacer ''m'', load_more_tickets_button] else [])
             @ [spacer ''m'', back_to_home_button])"
  by (simp add: merge_page_def)

text \<open>
  Claim C3. Let the fetch at the start of a list view return twenty tickets. At
  \<open>/api/initialize\<close>, and likewise at \<open>add_to_existing_ticket\<close>, the stored state has
  offset 5 and \<open>hasMore\<close> set, and the page shows exactly the first five tickets followed
  by the load-more button. Each of the next three load-more events, on the merge page and
  on the home page alike, works on the stored list, makes no upstream call, advances the
  stored offset to 10, 15 and 20, and sends one page: it shows the first 10, 15 and 20
  tickets, five more each time, taken in order from the stored list; the load-more button
  is still there after the first two and gone after the third, where \<open>hasMore\<close> is
  cleared. A fourth load-more changes nothing: it adds no ticket, leaves \<open>hasMore\<close>
  cleared and sends the same page as the third. The pages of the home view are as stated
  when every creation date formats with a date part and a time part (otherwise the
  helper that renders them throws); its stored state advances in either case. In general
  both load-more branches advance the stored state by this step and make no upstream
  call.
\<close>

theorem C3_start_list_then_load_more:
  assumes "length ts = 20"
  shows "let build = buildRecentTicketsComponent fmt domain;
             state = (\<lambda>n showMore. \<lparr>customerEmail = e, currentOffset = n, allTickets = ts, hasMore = showMore\<rparr>);
             home_page = (\<lambda>n showMore. canvas
               (home_buttons @ recent_header
                @ concat (map (\<lambda>t. ticket_entry domain t (dateLine t)) (take n ts))
                @ (if showMore then [spacer ''m'', load_more_home_button] else [])));
             merge_list = (\<lambda>n showMore. canvas
               ([JObj [(''type'', JStr ''text''),
                       (''text'', JStr ''Select a ticket to merge this conversation into:''),
                       (''style'', JStr ''header'')]]
                @ concat (map (\<lambda>t. [select_ticket_button t, spacer ''s'']) (take n ts))
                @ (if showMore then [spacer ''m'', load_more_tickets_button] else [])
                @ [spacer ''m'', back_to_home_button]));
             h1 = load_more_home_tickets build (L\<lparr>homePageState := Some (initialize_state e (Inr ts))\<rparr>);
             h2 = load_more_home_tickets build (fst h1);
             h3 = load_more_home_tickets build (fst h2);
             h4 = load_more_home_tickets build (fst h3);
             m1 = load_more_tickets (L\<lparr>mergePageState := Some (add_to_existing_state e (Inr ts))\<rparr>);
             m2 = load_more_tickets (fst m1);
             m3 = load_more_tickets (fst m2);
             m4 = load_more_tickets (fst m3)
         in initialize_state e (Inr ts) = state 5 True
          \<and> add_to_existing_state e (Inr ts) = state 5 True
          \<and> add_to_existing_page e ts = merge_list 5 True
          \<and> m1 = (L\<lparr>mergePageState := Some (state 10 True)\<rparr>, [SendResponse (merge_list 10 True)])
          \<and> m2 = (L\<lparr>mergePageState := Some (state 15 True)\<rparr>, [SendResponse (merge_list 15 True)])
          \<and> m3 = (L\<lparr>mergePageState := Some (state 20 False)\<rparr>, [SendResponse (merge_list 20 False)])
          \<and> m4 = m3
          \<and> replies (foldl perform new_responder (snd m1)) = [merge_list 10 True]
          \<and> replies (foldl perform new_responder (snd m4)) = [merge_list 20 False]
          \<and> fst h1 = L\<lparr>homePageState := Some (state 10 True)\<rparr>
          \<and> fst h2 = L\<lparr>homePageState := Some (state 15 True)\<rparr>
          \<and> fst h3 = L\<lparr>homePageState := Some (state 20 False)\<rparr>
          \<and> fst h4 = fst h3
          \<and> ((\<forall>t\<in>set ts. ticket_date_text fmt (created_at t) = Inr (dateLine t)) \<longrightarrow>
                initialize_reply fmt domain e (Inr ts) = home_page 5 True
              \<and> snd h1 = [SendResponse (home_page 10 True)]
              \<and> snd h2 = [SendResponse (home_page 15 True)]
              \<and> snd h3 = [SendResponse (home_page 20 False)]
              \<and> snd h4 = snd h3
              \<and> replies (foldl perform new_responder (snd h1)) = [home_page 10 True]
              \<and> replies (foldl perform new_responder (snd h4)) = [home_page 20 False])
          \<and> take 10 ts = take 5 ts @ take 5 (drop 5 ts)
          \<and> take 15 ts = take 10 ts @ take 5 (drop 10 ts)
          \<and> take 20 ts = take 15 ts @ take 5 (drop 15 ts)
          \<and> take 20 ts = ts
          \<and> upstream_calls (snd h1 @ snd h2 @ snd h3 @ snd h4 @ snd m1 @ snd m2 @ snd m3 @ snd m4) = []
          \<and> homePageState (fst (load_more_home_tickets b L')) = map_option load_more_advance (homePageState L')
          \<and> upstream_calls (snd (load_more_home_tickets b L')) = []
          \<and> mergePageState (fst (load_more_tickets L')) = map_option load_more_advance (mergePageState L')
          \<and> upstream_calls (snd (load_more_tickets L')) = []"
proof -
  define build where "build = buildRecentTicketsComponent fmt domain"
  define state where "state = (\<lambda>n showMore. \<lparr>customerEmail = e, currentOffset = n, allTickets = ts, hasMore = showMore\<rparr>)"
  define home_page where "home_page = (\<lambda>n showMore. canvas
               (home_buttons @ recent_header
                @ concat (map (\<lambda>t. ticket_entry domain t (dateLine t)) (take n ts))
                @ (if showMore then [spacer ''m'', load_more_home_button] else [])))"
  define merge_list where "merge_list = (\<lambda>n showMore. canvas
               ([JObj [(''type'', JStr ''text''),
                       (''text'', JStr ''Select a ticket to merge this conversation into:''),
                       (''style'', JStr ''header'')]]
                @ concat (map (\<lambda>t. [select_ticket_button t, spacer ''s'']) (take n ts))
                @ (if showMore then [spacer ''m'', load_more_tickets_button] else [])
                @ [spacer ''m'', back_to_home_button]))"
  have ne: "ts \<noteq> []" using assms(1) by auto
  have i0: "initialize_state e (Inr ts) = state 5 True"
    using assms(1) by (simp add: initialize_state_def state_def Let_def)
  have a0: "add_to_existing_state e (Inr ts) = state 5 True"
    using assms(1) by (simp add: add_to_existing_state_def state_def Let_def)
  have adv: "load_more_advance (state n showMore) = state (min (n + 5) 20) (min (n + 5) 20 < 20)" for n showMore
    unfolding state_def load_more_advance_record assms(1) ..
  have c: "currentOffset (state n showMore) = n" "allTickets (state n showMore) = ts" for n showMore
    by (simp_all add: state_def)
  have hfst: "fst (load_more_home_tickets build (L\<lparr>homePageState := Some (state n showMore)\<rparr>)) =
        L\<lparr>homePageState := Some (state (min (n + 5) 20) (min (n + 5) 20 < 20))\<rparr>" for n showMore
  proof -
    have s: "homePageState (L\<lparr>homePageState := Some (state n showMore)\<rparr>) = Some (state n showMore)" by simp
    show ?thesis unfolding load_more_home_tickets_step [OF s] adv by simp
  qed
  have mstep: "load_more_tickets (L\<lparr>mergePageState := Some (state n showMore)\<rparr>) =
        (L\<lparr>mergePageState := Some (state (min (n + 5) 20) (min (n + 5) 20 < 20))\<rparr>,
         [SendResponse (merge_list (min (n + 5) 20) (min (n + 5) 20 < 20))])" for n showMore
  proof -
    have s: "mergePageState (L\<lparr>mergePageState := Some (state n showMore)\<rparr>) = Some (state n showMore)" by simp
    show ?thesis
      unfolding load_more_tickets_step [OF s] adv
      by (simp add: state_def merge_page_record merge_list_def)
  qed
  have f1: "fst (load_more_home_tickets build (L\<lparr>homePageState := Some (state 5 True)\<rparr>))
      = L\<lparr>homePageState := Some (state 10 True)\<rparr>"
    unfolding hfst by simp
  have f2: "fst (load_more_home_tickets build (L\<lparr>homePageState := Some (state 10 True)\<rparr>))
      = L\<lparr>homePageState := Some (state 15 True)\<rparr>"
    unfolding hfst by simp
  have f3: "fst (load_more_home_tickets build (L\<lparr>homePageState := Some (state 15 True)\<rparr>))
      = L\<lparr>homePageState := Some (state 20 False)\<rparr>"
    unfolding hfst by simp
  have f4: "fst (load_more_home_tickets build (L\<lparr>homePageState := Some (state 20 False)\<rparr>))
      = L\<lparr>homePageState := Some (state 20 False)\<rparr>"
    unfolding hfst by simp
  have m1: "load_more_tickets (L\<lparr>mergePageState := Some (state 5 True)\<rparr>)
      = (L\<lparr>mergePageState := Some (state 10 True)\<rparr>, [SendResponse (merge_list 10 True)])"
    unfolding mstep by simp
  have m2: "load_more_tickets (L\<lparr>mergePageState := Some (state 10 True)\<rparr>)
      = (L\<lparr>mergePageState := Some (state 15 True)\<rparr>, [SendResponse (merge_list 15 True)])"
    unfolding mstep by simp
  have m3: "load_more_tickets (L\<lparr>mergePageState := Some (state 15 True)\<rparr>)
      = (L\<lparr>mergePageState := Some (state 20 False)\<rparr>, [SendResponse (merge_list 20 False)])"
    unfolding mstep by simp
  have m4: "load_more_tickets (L\<lparr>mergePageState := Some (state 20 False)\<rparr>)
      = (L\<lparr>mergePageState := Some (state 20 False)\<rparr>, [SendResponse (merge_list 20 False)])"
    unfolding mstep by simp
  have ap: "add_to_existing_page e ts = merge_list 5 True"
    using ne by (simp add: add_to_existing_page_def a0 state_def merge_list_def)
  have r: "replies (foldl perform new_responder [SendResponse body]) = [body]" for body
    by (simp add: new_responder_def sendResponse_def res_json_def)
  have t: "take 10 ts = take 5 ts @ take 5 (drop 5 ts)" "take 15 ts = take 10 ts @ take 5 (drop 10 ts)"
    "take 20 ts = take 15 ts @ take 5 (drop 15 ts)" "take 20 ts = ts"
    using assms(1) take_add [of 5 5 ts] take_add [of 10 5 ts] take_add [of 15 5 ts] by simp_all
  have r': "replies (sendResponse body new_responder) = [body]" for body
    by (simp add: new_responder_def sendResponse_def res_json_def)
  have up: "filter is_await (snd (load_more_home_tickets k K)) = []"
           "filter is_await (snd (load_more_tickets K)) = []" for k K
    using upstream_calls_load_more_home [of k K] upstream_calls_load_more_tickets [of K]
    by (simp_all add: upstream_calls_def)
  have formatted:
    "initialize_reply fmt domain e (Inr ts) = home_page 5 True
     \<and> snd (load_more_home_tickets build (L\<lparr>homePageState := Some (state 5 True)\<rparr>))
          = [SendResponse (home_page 10 True)]
     \<and> snd (load_more_home_tickets build (L\<lparr>homePageState := Some (state 10 True)\<rparr>))
          = [SendResponse (home_page 15 True)]
     \<and> snd (load_more_home_tickets build (L\<lparr>homePageState := Some (state 15 True)\<rparr>))
          = [SendResponse (home_page 20 False)]
     \<and> snd (load_more_home_tickets build (L\<lparr>homePageState := Some (state 20 False)\<rparr>))
          = [SendResponse (home_page 20 False)]"
    if d: "\<forall>t\<in>set ts. ticket_date_text fmt (created_at t) = Inr (dateLine t)"
  proof -
    have dates: "\<forall>t\<in>set (take n ts). ticket_date_text fmt (created_at t) = Inr (dateLine t)" for n
      using d by (auto dest: in_set_takeD)
    have built: "build (take n ts) showMore =
          Inr (recent_header @ concat (map (\<lambda>t. ticket_entry domain t (dateLine t)) (take n ts))
               @ (if showMore then [spacer ''m'', load_more_home_button] else []))" if "0 < n" for n showMore
      unfolding build_def using that ne
      by (intro buildRecentTicketsComponent_formatted [OF dates]) simp
    have hsnd: "snd (load_more_home_tickets build (L\<lparr>homePageState := Some (state n showMore)\<rparr>)) =
           [SendResponse (home_page (min (n + 5) 20) (min (n + 5) 20 < 20))]" for n showMore
    proof -
      have s: "homePageState (L\<lparr>homePageState := Some (state n showMore)\<rparr>) = Some (state n showMore)" by simp
      show ?thesis
        unfolding load_more_home_tickets_step [OF s] adv c assms(1)
        by (simp add: built home_page_def)
    qed
    have ir: "initialize_reply fmt domain e (Inr ts) = home_page 5 True"
      using built [of 5 True] unfolding build_def
      by (simp add: initialize_reply_def i0 state_def home_page_def)
    show ?thesis unfolding hsnd using ir by simp
  qed
  show ?thesis
    unfolding Let_def build_def [symmetric] state_def [symmetric] home_page_def [symmetric]
      merge_list_def [symmetric]
    unfolding i0 a0 f1 f2 f3 f4 m1 fst_conv snd_conv m2 m3 m4 r
    using ap t formatted
    by (simp add: r r' up upstream_calls_def load_more_tickets_state load_more_home_tickets_state)
qed

lemma twenty_tickets_length: "length twenty_tickets = 20"
  by (simp add: twenty_tickets_def)

lemma kolkata_date_text:
  "ticket_date_text kolkata created = Inr ''01/01/2024, 05:30 AM''"
  by (simp add: ticket_date_text_def kolkata_def split_first_two_def Let_def)

text \<open>
  Twenty tickets numbered from 1. The page at the start shows the home buttons, the
  header, the entries of tickets 1 to 5 and the load-more button. The first load-more on
  the merge page shows the buttons of tickets 1 to 10, then the load-more and the back
  button, and on the home page the entries of tickets 1 to 10. The third load-more on the
  merge page shows all twenty buttons and, after the last, only the back button.
\<close>

theorem C3_start_list_then_load_more_witness:
  "length twenty_tickets = 20
   \<and> ticket_date_text kolkata ''2024-01-01T00:00:00Z'' = Inr ''01/01/2024, 05:30 AM''
   \<and> snd (load_more_tickets
             (fresh_locals\<lparr>mergePageState := Some (add_to_existing_state ann (Inr twenty_tickets))\<rparr>))
       = [SendResponse (canvas
            ([JObj [(''type'', JStr ''text''),
                    (''text'', JStr ''Select a ticket to merge this conversation into:''),
                    (''style'', JStr ''header'')]]
             @ concat (map (\<lambda>t. [select_ticket_button t, spacer ''s'']) (take 10 twenty_tickets))
             @ [spacer ''m'', load_more_tickets_button]
             @ [spacer ''m'', back_to_home_button]))]
   \<and> map (\<lambda>c. jget c ''id'')
         (concat (map (\<lambda>t. [select_ticket_button t, spacer ''s'']) (take 10 twenty_tickets))
          @ [spacer ''m'', load_more_tickets_button] @ [spacer ''m'', back_to_home_button])
       = [JStr ''select_ticket_1'', JUndefined, JStr ''select_ticket_2'', JUndefined,
          JStr ''select_ticket_3'', JUndefined, JStr ''select_ticket_4'', JUndefined,
          JStr ''select_ticket_5'', JUndefined, JStr ''select_ticket_6'', JUndefined,
          JStr ''select_ticket_7'', JUndefined, JStr ''select_ticket_8'', JUndefined,
          JStr ''select_ticket_9'', JUndefined, JStr ''select_ticket_10'', JUndefined,
          JUndefined, JStr ''load_more_tickets'', JUndefined, JStr ''back_to_home'']
   \<and> snd (load_more_home_tickets (buildRecentTicketsComponent kolkata ''https://desk.example'')
             (fresh_locals\<lparr>homePageState := Some (initialize_state ann (Inr twenty_tickets))\<rparr>))
       = [SendResponse (canvas
            (home_buttons @ recent_header
             @ concat (map (\<lambda>t. ticket_entry ''https://desk.example'' t ''01/01/2024, 05:30 AM'')
                           (take 10 twenty_tickets))
             @ [spacer ''m'', load_more_home_button]))]
   \<and> map (\<lambda>c. (jget c ''type'', jget c ''id''))
         (components_of (initialize_reply kolkata ''https://desk.example'' ann (Inr twenty_tickets)))
       = [(JStr ''spacer'', JUndefined), (JStr ''button'', JStr ''create_ticket''),
          (JStr ''spacer'', JUndefined), (JStr ''button'', JStr ''add_to_existing_ticket''),
          (JStr ''spacer'', JUndefined),
          (JStr ''spacer'', JUndefined), (JStr ''text'', JUndefined), (JStr ''spacer'', JUndefined),
          (JStr ''text'', JStr ''ticket_1''), (JStr ''text'', JStr ''ticket_date_1''), (JStr ''spacer'', JUndefined),
          (JStr ''text'', JStr ''ticket_2''), (JStr ''text'', JStr ''ticket_date_2''), (JStr ''spacer'', JUndefined),
          (JStr ''text'', JStr ''ticket_3''), (JStr ''text'', JStr ''ticket_date_3''), (JStr ''spacer'', JUndefined),
          (JStr ''text'', JStr ''ticket_4''), (JStr ''text'', JStr ''ticket_date_4''), (JStr ''spacer'', JUndefined),
          (JStr ''text'', JStr ''ticket_5''), (JStr ''text'', JStr ''ticket_date_5''), (JStr ''spacer'', JUndefined),
          (JStr ''spacer'', JUndefined), (JStr ''button'', JStr ''load_more_home_tickets'')]
   \<and> map (\<lambda>c. jget c ''id'')
         (drop 39 (concat (map (\<lambda>t. [select_ticket_button t, spacer ''s'']) (take 20 twenty_tickets))
                   @ [spacer ''m'', back_to_home_button]))
       = [JUndefined, JUndefined, JStr ''back_to_home'']
   \<and> snd (load_more_tickets (fst (load_more_tickets (fst (load_more_tickets
             (fresh_locals\<lparr>mergePageState := Some (add_to_existing_state ann (Inr twenty_tickets))\<rparr>))))))
       = [SendResponse (canvas
            ([JObj [(''type'', JStr ''text''),
                    (''text'', JStr ''Select a ticket to merge this conversation into:''),
                    (''style'', JStr ''header'')]]
             @ concat (map (\<lambda>t. [select_ticket_button t, spacer ''s'']) (take 20 twenty_tickets))
             @ [spacer ''m'', back_to_home_button]))]"
proof -
  have d: "\<forall>t\<in>set twenty_tickets. ticket_date_text kolkata (created_at t) = Inr ''01/01/2024, 05:30 AM''"
    by (simp add: kolkata_date_text)
  note T = C3_start_list_then_load_more [where b = "\<lambda>shown showMore. Inr []" and L' = fresh_locals
      and domain = "''https://desk.example''" and e = ann and L = fresh_locals and fmt = kolkata
      and dateLine = "\<lambda>t. ''01/01/2024, 05:30 AM''",
      OF twenty_tickets_length, unfolded Let_def]
  note H = T [THEN conjunct2, THEN conjunct2, THEN conjunct2, THEN conjunct2, THEN conjunct2,
      THEN conjunct2, THEN conjunct2, THEN conjunct2, THEN conjunct2, THEN conjunct2,
      THEN conjunct2, THEN conjunct2, THEN conjunct2, THEN conjunct1, THEN mp, OF d]
  have m: "snd (load_more_tickets
             (fresh_locals\<lparr>mergePageState := Some (add_to_existing_state ann (Inr twenty_tickets))\<rparr>))
       = [SendResponse (canvas
            ([JObj [(''type'', JStr ''text''),
                    (''text'', JStr ''Select a ticket to merge this conversation into:''),
                    (''style'', JStr ''header'')]]
             @ concat (map (\<lambda>t. [select_ticket_button t, spacer ''s'']) (take 10 twenty_tickets))
             @ [spacer ''m'', load_more_tickets_button]
             @ [spacer ''m'', back_to_home_button]))]"
    using T [THEN conjunct2, THEN conjunct2, THEN conjunct2, THEN conjunct1] by simp
  have h: "snd (load_more_home_tickets (buildRecentTicketsComponent kolkata ''https://desk.example'')
             (fresh_locals\<lparr>homePageState := Some (initialize_state ann (Inr twenty_tickets))\<rparr>))
       = [SendResponse (canvas
            (home_buttons @ recent_header
             @ concat (map (\<lambda>t. ticket_entry ''https://desk.example'' t ''01/01/2024, 05:30 AM'')
                           (take 10 twenty_tickets))
             @ [spacer ''m'', load_more_home_button]))]"
    using H [THEN conjunct2, THEN conjunct1] by simp
  have ids: "map (\<lambda>c. jget c ''id'')
         (concat (map (\<lambda>t. [select_ticket_button t, spacer ''s'']) (take 10 twenty_tickets))
          @ [spacer ''m'', load_more_tickets_button] @ [spacer ''m'', back_to_home_button])
       = [JStr ''select_ticket_1'', JUndefined, JStr ''select_ticket_2'', JUndefined,
          JStr ''select_ticket_3'', JUndefined, JStr ''select_ticket_4'', JUndefined,
          JStr ''select_ticket_5'', JUndefined, JStr ''select_ticket_6'', JUndefined,
          JStr ''select_ticket_7'', JUndefined, JStr ''select_ticket_8'', JUndefined,
          JStr ''select_ticket_9'', JUndefined, JStr ''select_ticket_10'', JUndefined,
          JUndefined, JStr ''load_more_tickets'', JUndefined, JStr ''back_to_home'']"
    by (simp add: twenty_tickets_def take_map select_ticket_button_def spacer_def
        load_more_tickets_button_def back_to_home_button_def string_of_nat.simps digit_char_def)
  have page: "map (\<lambda>c. (jget c ''type'', jget c ''id''))
         (components_of (initialize_reply kolkata ''https://desk.example'' ann (Inr twenty_tickets)))
       = [(JStr ''spacer'', JUndefined), (JStr ''button'', JStr ''create_ticket''),
          (JStr ''spacer'', JUndefined), (JStr ''button'', JStr ''add_to_existing_ticket''),
          (JStr ''spacer'', JUndefined),
          (JStr ''spacer'', JUndefined), (JStr ''text'', JUndefined), (JStr ''spacer'', JUndefined),
          (JStr ''text'', JStr ''ticket_1''), (JStr ''text'', JStr ''ticket_date_1''), (JStr ''spacer'', JUndefined),
          (JStr ''text'', JStr ''ticket_2''), (JStr ''text'', JStr ''ticket_date_2''), (JStr ''spacer'', JUndefined),
          (JStr ''text'', JStr ''ticket_3''), (JStr ''text'', JStr ''ticket_date_3''), (JStr ''spacer'', JUndefined),
          (JStr ''text'', JStr ''ticket_4''), (JStr ''text'', JStr ''ticket_date_4''), (JStr ''spacer'', JUndefined),
          (JStr ''text'', JStr ''ticket_5''), (JStr ''text'', JStr ''ticket_date_5''), (JStr ''spacer'', JUndefined),
          (JStr ''spacer'', JUndefined), (JStr ''button'', JStr ''load_more_home_tickets'')]"
    unfolding H [THEN conjunct1]
    by (simp add: components_of_def canvas_def twenty_tickets_def home_buttons_def recent_header_def
        ticket_entry_def spacer_def load_more_home_button_def string_of_nat.simps digit_char_def)
  have last: "map (\<lambda>c. jget c ''id'')
         (drop 39 (concat (map (\<lambda>t. [select_ticket_button t, spacer ''s'']) (take 20 twenty_tickets))
                   @ [spacer ''m'', back_to_home_button]))
       = [JUndefined, JUndefined, JStr ''back_to_home'']"
    by (simp add: twenty_tickets_def select_ticket_button_def spacer_def back_to_home_button_def)
  have m3: "snd (load_more_tickets (fst (load_more_tickets (fst (load_more_tickets
             (fresh_locals\<lparr>mergePageState := Some (add_to_existing_state ann (Inr twenty_tickets))\<rparr>))))))
       = [SendResponse (canvas
            ([JObj [(''type'', JStr ''text''),
                    (''text'', JStr ''Select a ticket to merge this conversation into:''),
                    (''style'', JStr ''header'')]]
             @ concat (map (\<lambda>t. [select_ticket_button t, spacer ''s'']) (take 20 twenty_tickets))
             @ [spacer ''m'', back_to_home_button]))]"
    using T [THEN conjunct2, THEN conjunct2, THEN conjunct2, THEN conjunct2, THEN conjunct2,
             THEN conjunct1]
    by simp
  show ?thesis
    using twenty_tickets_length kolkata_date_text m h ids page last m3 by simp
qed

text \<open>
  Claim C5, as stated, fails: with a single fetched ticket, initialize stores offset 5
  over a list of length 1.
\<close>

theorem C5_offset_exceeds_fetched_counterexample:
  "length (allTickets (initialize_state ''ann@example.com'' (Inr [sample_ticket])))
     < currentOffset (initialize_state ''ann@example.com'' (Inr [sample_ticket]))"
  by simp

text \<open>
  Claim C5, amended. Creation stores the constant offset 5 whatever was fetched, so at
  initialize the offset is within the stored list exactly when at least five tickets were
  fetched, and at browse-existing exactly when at least five or none were; a failed fetch
  leaves offset 0 over the empty list. Every load-more advance, from any state, ends with
  the offset within the stored list, and the revealed prefix \<open>slice(0, currentOffset)\<close>
  never has more elements than the stored list.
\<close>

theorem C5_offset_bound_amended:
  "(currentOffset (initialize_state e (Inr ts)) \<le> length (allTickets (initialize_state e (Inr ts))))
      = (5 \<le> length ts)
   \<and> (currentOffset (add_to_existing_state e (Inr ts)) \<le> length (allTickets (add_to_existing_state e (Inr ts))))
      = (5 \<le> length ts \<or> ts = [])
   \<and> currentOffset (initialize_state e (Inl err)) \<le> length (allTickets (initialize_state e (Inl err)))
   \<and> currentOffset (add_to_existing_state e (Inl err)) \<le> length (allTickets (add_to_existing_state e (Inl err)))
   \<and> currentOffset (load_more_advance st) \<le> length (allTickets (load_more_advance st))
   \<and> length (slice (allTickets st) 0 (currentOffset st)) \<le> length (allTickets st)"
  by auto

text \<open>
  Claim C8. A load-more event that finds no stored state (\<open>load_more_tickets\<close> without
  \<open>mergePageState\<close>, \<open>load_more_home_tickets\<close> without \<open>homePageState\<close>) leaves
  \<open>app.locals\<close> as it was and hands the session-expired page to \<open>sendResponse\<close>; as
  nothing is awaited before, the flag is still unset and the page is the one reply of the
  request. The page is an error text followed by a button (back to home, respectively
  create ticket). The branch is a total function: it has this result for every state.
\<close>

theorem C8_load_more_without_state:
  "(mergePageState L = None \<longrightarrow>
      load_more_tickets L = (L, [SendResponse session_expired_merge])
    \<and> replies (foldl perform new_responder (snd (load_more_tickets L))) = [session_expired_merge])
   \<and> (homePageState L = None \<longrightarrow>
      load_more_home_tickets b L = (L, [SendResponse session_expired_home])
    \<and> replies (foldl perform new_responder (snd (load_more_home_tickets b L))) = [session_expired_home])
   \<and> map (\<lambda>c. (jget c ''type'', jget c ''text'', jget c ''id'')) (components_of session_expired_merge)
       = [(JStr ''text'', JStr ''Error: Session expired. Please try again.'', JUndefined),
          (JStr ''button'', JUndefined, JStr ''back_to_home'')]
   \<and> map (\<lambda>c. (jget c ''type'', jget c ''text'', jget c ''id'')) (components_of session_expired_home)
       = [(JStr ''text'', JStr ''Error: Session expired. Please try again.'', JUndefined),
          (JStr ''button'', JUndefined, JStr ''create_ticket'')]"
  by (simp add: load_more_tickets_def load_more_home_tickets_def new_responder_def
      sendResponse_def res_json_def session_expired_merge_def session_expired_home_def
      components_of_def canvas_def)

theorem C8_load_more_without_state_witness:
  "mergePageState fresh_locals = None \<and> homePageState fresh_locals = None
   \<and> load_more_tickets fresh_locals = (fresh_locals, [SendResponse session_expired_merge])
   \<and> load_more_home_tickets (\<lambda>ts m. Inr []) fresh_locals
        = (fresh_locals, [SendResponse session_expired_home])"
  using C8_load_more_without_state [of fresh_locals "\<lambda>ts m. Inr []"]
  by (simp add: fresh_locals_def)


section \<open>Properties of \<open>fetchWithRetry\<close>\<close>

lemma loop_after_failures:
  assumes "\<forall>n<j. axios (server n) = Inl (e n)" and "j \<le> retries"
  shows "fetchWithRetry_loop server random retries 0 d [] =
         fetchWithRetry_loop server random retries j (backoff random d j) (map (backoff random d) [0..<j])"
  using assms
proof (induction j)
  case 0
  then show ?case by simp
next
  case (Suc j)
  then have "fetchWithRetry_loop server random retries 0 d [] =
         fetchWithRetry_loop server random retries j (backoff random d j) (map (backoff random d) [0..<j])"
    by simp
  also have "\<dots> = fetchWithRetry_loop server random retries (Suc j) (backoff random d (Suc j))
                     (map (backoff random d) [0..<Suc j])"
    using Suc.prems by (subst fetchWithRetry_loop.simps) simp
  finally show ?case .
qed

lemma fetchWithRetry_success:
  assumes "\<forall>n<k. axios (server n) = Inl (e n)" and "k \<le> retries" and "axios (server k) = Inr resp"
  shows "fetchWithRetry server random retries d =
         \<lparr>outcome = Inr (Some resp), calls = k + 1, delays = map (backoff random d) [0..<k]\<rparr>"
  unfolding fetchWithRetry_def loop_after_failures [OF assms(1,2)]
  using assms(2,3) by (subst fetchWithRetry_loop.simps) simp

lemma fetchWithRetry_exhausted:
  assumes "\<forall>n\<le>retries. axios (server n) = Inl (e n)"
  shows "fetchWithRetry server random retries d =
         \<lparr>outcome = Inl (e retries), calls = retries + 1, delays = map (backoff random d) [0..<retries]\<rparr>"
proof -
  have "\<forall>n<retries. axios (server n) = Inl (e n)" using assms by simp
  from loop_after_failures [OF this order_refl] show ?thesis
    unfolding fetchWithRetry_def using assms by (subst (asm) (2) fetchWithRetry_loop.simps) simp
qed

text \<open>Every run waits the first so-many values of the backoff recursion, one per retry.\<close>

lemma delays_backoff:
  "\<exists>n\<le>retries. delays (fetchWithRetry server random retries d) = map (backoff random d) [0..<n]
      \<and> calls (fetchWithRetry server random retries d) = n + 1"
proof (cases "\<exists>k\<le>retries. \<exists>resp. axios (server k) = Inr resp")
  case True
  define k where "k = (LEAST k. \<exists>resp. axios (server k) = Inr resp)"
  from True obtain k0 where k0: "k0 \<le> retries" "\<exists>resp. axios (server k0) = Inr resp" by blast
  have ex: "\<exists>resp. axios (server k) = Inr resp" unfolding k_def using k0(2) by (rule LeastI)
  have le: "k \<le> k0" unfolding k_def using k0(2) by (rule Least_le)
  have before: "\<forall>n<k. \<exists>err. axios (server n) = Inl err"
  proof (intro allI impI)
    fix n assume "n < k"
    then have "\<not> (\<exists>resp. axios (server n) = Inr resp)" unfolding k_def by (rule not_less_Least)
    then show "\<exists>err. axios (server n) = Inl err" by (cases "axios (server n)") auto
  qed
  then obtain e where e: "\<forall>n<k. axios (server n) = Inl (e n)" by metis
  from ex obtain resp where "axios (server k) = Inr resp" by blast
  from fetchWithRetry_success [OF e _ this, of retries random d] le k0(1)
  show ?thesis by (intro exI [of _ k]) simp
next
  case False
  then have "\<forall>n\<le>retries. \<exists>err. axios (server n) = Inl err"
    by (metis sum.exhaust)
  then obtain e where "\<forall>n\<le>retries. axios (server n) = Inl (e n)" by metis
  from fetchWithRetry_exhausted [OF this, of random d]
  show ?thesis by (intro exI [of _ retries]) simp
qed

text \<open>
  Claim C4, as stated, fails: when the first attempt is answered with status 404 and the
  second with 200, the 404 is not surfaced; the call is retried once, after the base
  delay, and the success response is returned.
\<close>

theorem C4_retry_after_404_counterexample:
  "fetchWithRetry not_found_once lowest_draws 3 500 =
     \<lparr>outcome = Inr (Some \<lparr>status = 200, data = JStr ''ok''\<rparr>), calls = 2, delays = [500]\<rparr>
   \<and> axios (not_found_once 0) = Inl (HttpStatus 404)"
  by (simp add: fetchWithRetry_def fetchWithRetry_loop.simps not_found_once_def)

text \<open>
  Claim C4, amended. \<open>fetchWithRetry\<close> retries after every rejected attempt, whatever
  the error (a missing response, a 5xx status or a 4xx status alike). When the first
  \<open>k\<close> attempts are rejected and attempt \<open>k\<close> is within the retry budget and succeeds, its
  response is returned after exactly \<open>k\<close> retries (\<open>k + 1\<close> calls, \<open>k\<close> waits); when all
  \<open>retries + 1\<close> attempts are rejected, the error of the last one is thrown.
\<close>

theorem C4_retry_on_every_error:
  assumes "\<forall>n<k. axios (server n) = Inl (e n)"
  shows "(k \<le> retries \<and> axios (server k) = Inr resp \<longrightarrow>
            outcome (fetchWithRetry server random retries d) = Inr (Some resp)
          \<and> calls (fetchWithRetry server random retries d) = k + 1
          \<and> length (delays (fetchWithRetry server random retries d)) = k)
       \<and> (k = retries + 1 \<longrightarrow>
            outcome (fetchWithRetry server random retries d) = Inl (e retries)
          \<and> calls (fetchWithRetry server random retries d) = retries + 1
          \<and> length (delays (fetchWithRetry server random retries d)) = retries)"
proof (intro conjI impI)
  assume a: "k \<le> retries \<and> axios (server k) = Inr resp"
  note s = fetchWithRetry_success [OF assms, of retries resp random d]
  show "outcome (fetchWithRetry server random retries d) = Inr (Some resp)" using a s by simp
  show "calls (fetchWithRetry server random retries d) = k + 1" using a s by simp
  show "length (delays (fetchWithRetry server random retries d)) = k" using a s by simp
next
  assume b: "k = retries + 1"
  then have "\<forall>n\<le>retries. axios (server n) = Inl (e n)" using assms by simp
  note x = fetchWithRetry_exhausted [OF this, of random d]
  show "outcome (fetchWithRetry server random retries d) = Inl (e retries)" using x by simp
  show "calls (fetchWithRetry server random retries d) = retries + 1" using x by simp
  show "length (delays (fetchWithRetry server random retries d)) = retries" using x by simp
qed

text \<open>Two attempts answered 503, then 200: the success response after exactly two retries.\<close>

theorem C4_retry_on_every_error_witness:
  "axios (unavailable_twice 0) = Inl (HttpStatus 503)
   \<and> axios (unavailable_twice 1) = Inl (HttpStatus 503)
   \<and> axios (unavailable_twice 2) = Inr \<lparr>status = 200, data = JStr ''ok''\<rparr>
   \<and> outcome (fetchWithRetry unavailable_twice lowest_draws 3 500)
       = Inr (Some \<lparr>status = 200, data = JStr ''ok''\<rparr>)
   \<and> calls (fetchWithRetry unavailable_twice lowest_draws 3 500) = 3
   \<and> length (delays (fetchWithRetry unavailable_twice lowest_draws 3 500)) = 2"
proof -
  have a0: "axios (unavailable_twice 0) = Inl (HttpStatus 503)"
    and a1: "axios (unavailable_twice 1) = Inl (HttpStatus 503)"
    and ok: "axios (unavailable_twice 2) = Inr \<lparr>status = 200, data = JStr ''ok''\<rparr>"
    by (simp_all add: unavailable_twice_def)
  have h: "\<forall>n<2. axios (unavailable_twice n) = Inl (HttpStatus 503)"
    by (simp add: unavailable_twice_def)
  from C4_retry_on_every_error [OF h, of 3 \<open>\<lparr>status = 200, data = JStr ''ok''\<rparr>\<close> lowest_draws 500]
  show ?thesis using a0 a1 ok by simp
qed

lemma highest_factor:
  "js_add (fl 0.8) (js_mul (1 - 1 / 2 ^ 53) (fl 0.4)) = 5404319552844595 / 4503599627370496"
  unfolding fl_literals js_add_def js_mul_def by (simp add: fl_eval)

lemma draw_below:
  assumes "draw r"
  shows "r \<le> 1 - 1 / 2 ^ 53"
proof (cases "r < 1 / 2")
  case True
  then show ?thesis by simp
next
  case False
  have r: "0 \<le> r" "r < 1" "fl r = r" using assms by (simp_all add: draw_def)
  have "binade r = 1 / 2" using False r(2) by (intro binade_half) simp_all
  then have b: "binade \<bar>r\<bar> = 1 / 2" using r(1) by simp
  define n where "n = round_half_even (r / (1 / 2 / 2 ^ 52))"
  have "r = (1 / 2 / 2 ^ 52) * of_int n"
    using r(3) unfolding fl_def b Let_def n_def by simp
  then have e: "r = of_int n / 2 ^ 53" by simp
  then have "(of_int n :: real) < of_int (2 ^ 53)" using r(2) by simp
  then have "n < 2 ^ 53" by (simp only: of_int_less_iff)
  then have "n \<le> 2 ^ 53 - 1" by simp
  then have "(of_int n :: real) \<le> of_int (2 ^ 53 - 1)" by (simp only: of_int_le_iff)
  then show ?thesis unfolding e by (simp add: field_simps)
qed

lemma jitter_range:
  assumes "draw r"
  shows "fl 0.8 \<le> jitter r \<and> jitter r \<le> fl 1.2"
proof -
  have r: "0 \<le> r" using assms by (simp add: draw_def)
  have "0 \<le> r * fl 0.4" using r by (simp add: fl_literals)
  from fl_mono [OF order_refl this] have m0: "0 \<le> js_mul r (fl 0.4)"
    by (simp add: js_mul_def)
  have "0 \<le> fl 0.8" "fl 0.8 \<le> fl 0.8 + js_mul r (fl 0.4)"
    using m0 by (simp_all add: fl_literals)
  from fl_mono [OF this] have lo: "fl 0.8 \<le> jitter r"
    by (simp add: jitter_def js_add_def fl_literals fl_08_fixed)
  have "0 \<le> r * fl 0.4" "r * fl 0.4 \<le> (1 - 1 / 2 ^ 53) * fl 0.4"
    using draw_below [OF assms] r by (simp_all add: fl_literals)
  from fl_mono [OF this] have m1: "js_mul r (fl 0.4) \<le> js_mul (1 - 1 / 2 ^ 53) (fl 0.4)"
    by (simp add: js_mul_def)
  have "0 \<le> fl 0.8 + js_mul r (fl 0.4)"
      "fl 0.8 + js_mul r (fl 0.4) \<le> fl 0.8 + js_mul (1 - 1 / 2 ^ 53) (fl 0.4)"
    using m0 m1 by (simp_all add: fl_literals)
  from fl_mono [OF this] have "jitter r \<le> js_add (fl 0.8) (js_mul (1 - 1 / 2 ^ 53) (fl 0.4))"
    by (simp add: jitter_def js_add_def)
  then have "jitter r \<le> fl 1.2" unfolding highest_factor fl_12 .
  then show ?thesis using lo by simp
qed

lemma factor_bounds:
  assumes "draw r"
  shows "0.8 \<le> jitter r" and "jitter r < 1.2"
  using jitter_range [OF assms] by (simp_all add: fl_literals fl_12)

text \<open>One step of the backoff between representable bounds.\<close>

lemma scaled_between:
  fixes f :: real
  assumes "0.8 \<le> f" and "f < 1.2" and "0 \<le> lo" and "lo \<le> c" and "c \<le> hi"
  shows "0 \<le> 0.8 * lo" and "0.8 * lo \<le> c * f" and "0 \<le> c * f" and "c * f \<le> 1.2 * hi"
proof -
  show "0 \<le> 0.8 * lo" using assms(3) by simp
  have "lo * 0.8 \<le> c * f" using assms by (intro mult_mono) simp_all
  then show "0.8 * lo \<le> c * f" by (simp only: mult.commute)
  show "0 \<le> c * f" using assms by simp
  have "c * f \<le> hi * 1.2" using assms by (intro mult_mono) simp_all
  then show "c * f \<le> 1.2 * hi" by (simp only: mult.commute)
qed

lemma backoff_step:
  assumes "draw r" and "0 \<le> lo" and "lo \<le> c" and "c \<le> hi"
  shows "fl (0.8 * lo) \<le> js_mul c (jitter r)"
    and "js_mul c (jitter r) \<le> fl (1.2 * hi)"
proof -
  note f = factor_bounds [OF assms(1)]
  note s = scaled_between [OF f assms(2,3,4)]
  show "fl (0.8 * lo) \<le> js_mul c (jitter r)"
    unfolding js_mul_def by (rule fl_mono [OF s(1) s(2)])
  show "js_mul c (jitter r) \<le> fl (1.2 * hi)"
    unfolding js_mul_def by (rule fl_mono [OF s(3) s(4)])
qed

lemmas backoff_Suc = backoff.simps(2)

lemma backoff_bounds:
  assumes "\<forall>k. draw (random k)"
  shows "500 \<le> backoff random 500 i \<and> backoff random 500 i \<le> 12000"
proof (induction i)
  case 0
  then show ?case by simp
next
  case (Suc i)
  let ?c = "min (js_mul (backoff random 500 i) 2) 10000"
  have "(0::real) \<le> 1000" "1000 \<le> backoff random 500 i * 2" using Suc by simp_all
  from fl_mono [OF this] have "1000 \<le> js_mul (backoff random 500 i) 2"
    by (simp add: js_mul_def fl_fixed)
  then have c: "1000 \<le> ?c" "?c \<le> 10000" by simp_all
  have d: "draw (random i)" using assms by simp
  from backoff_step [OF d _ c]
  have "fl (0.8 * 1000) \<le> backoff random 500 (Suc i)" "backoff random 500 (Suc i) \<le> fl (1.2 * 10000)"
    unfolding backoff_Suc by simp_all
  then show ?case by (simp add: fl_fixed)
qed

lemma backoff_first:
  assumes "\<forall>k. draw (random k)"
  shows "800 \<le> backoff random 500 1 \<and> backoff random 500 1 \<le> 1200"
proof -
  have c: "min (js_mul (backoff random 500 0) 2) 10000 = 1000"
    by (simp add: js_mul_def fl_fixed)
  have d: "draw (random 0)" using assms by simp
  from backoff_step [OF d, of 1000 1000 1000]
  have "fl (0.8 * 1000) \<le> backoff random 500 (Suc 0)" "backoff random 500 (Suc 0) \<le> fl (1.2 * 1000)"
    unfolding backoff_Suc c by simp_all
  then show ?thesis by (simp add: fl_fixed)
qed

lemma backoff_second:
  assumes "\<forall>k. draw (random k)"
  shows "1280 \<le> backoff random 500 2 \<and> backoff random 500 2 \<le> 2880"
proof -
  note b = backoff_first [OF assms]
  let ?c = "min (js_mul (backoff random 500 1) 2) 10000"
  have "(0::real) \<le> 1600" "1600 \<le> backoff random 500 1 * 2" using b by simp_all
  from fl_mono [OF this] have lo: "1600 \<le> js_mul (backoff random 500 1) 2"
    by (simp add: js_mul_def fl_fixed)
  have "0 \<le> backoff random 500 1 * 2" "backoff random 500 1 * 2 \<le> 2400" using b by simp_all
  from fl_mono [OF this] have hi: "js_mul (backoff random 500 1) 2 \<le> 2400"
    by (simp add: js_mul_def fl_fixed)
  have c: "1600 \<le> ?c" "?c \<le> 2400" using lo hi by simp_all
  have d: "draw (random 1)" using assms by simp
  have e: "(2::nat) = Suc 1" by simp
  from backoff_step [OF d _ c]
  have "fl (0.8 * 1600) \<le> backoff random 500 2" "backoff random 500 2 \<le> fl (1.2 * 2400)"
    unfolding e backoff_Suc by simp_all
  then show ?thesis by (simp add: fl_fixed)
qed


lemma backoff_between:
  assumes "draw r" and "0 \<le> c"
  shows "js_mul c (fl 0.8) \<le> js_mul c (jitter r) \<and> js_mul c (jitter r) \<le> js_mul c (fl 1.2)"
proof -
  note j = jitter_range [OF assms(1)]
  have p: "0 \<le> fl 0.8" by (simp add: fl_literals)
  have "0 \<le> c * fl 0.8" "c * fl 0.8 \<le> c * jitter r"
    using assms(2) j p by (simp_all add: mult_left_mono)
  from fl_mono [OF this] have lo: "js_mul c (fl 0.8) \<le> js_mul c (jitter r)"
    by (simp add: js_mul_def)
  have "0 \<le> jitter r" using j p by linarith
  then have "0 \<le> c * jitter r" "c * jitter r \<le> c * fl 1.2"
    using assms(2) j by (simp_all add: mult_left_mono)
  from fl_mono [OF this] have "js_mul c (jitter r) \<le> js_mul c (fl 1.2)"
    by (simp add: js_mul_def)
  then show ?thesis using lo by simp
qed

lemmas run_eval = fetchWithRetry_def fetchWithRetry_loop.simps unreachable_server_def
  js_mul_def js_add_def jitter_def

lemma lowest_run:
  "delays (fetchWithRetry unreachable_server lowest_draws 3 500) = [500, 800, 1280]"
  by (simp add: run_eval lowest_draws_def fl_literals fl_fixed) (simp add: fl_eval)

lemma highest_run:
  "delays (fetchWithRetry unreachable_server highest_draws 5 500) = [500, 1200, 2880, 6912, 12000]"
  by (simp add: run_eval highest_draws_def fl_literals fl_fixed) (simp add: fl_eval)

lemma draw_lowest: "draw (lowest_draws k)"
  by (simp add: draw_def lowest_draws_def)

lemma draw_highest: "draw (highest_draws k)"
  by (simp add: draw_def highest_draws_def fl_eval)

text \<open>
  Claim C7, as stated, fails. With every draw of \<open>Math.random()\<close> equal to 0 and no
  attempt answered, the delays are 500, 800 and 1280 ms, where the claimed formula gives
  400 before the second attempt and 1600 before the fourth (in exact and in double
  arithmetic alike): the first delay carries no jitter and the later ones compound it.
  With every draw equal to the largest double below 1, the fifth delay is 12000 ms, above
  ten seconds.
\<close>

theorem C7_delays_counterexample:
  "draw (lowest_draws 0) \<and> draw (lowest_draws 1) \<and> draw (lowest_draws 2)
   \<and> delays (fetchWithRetry unreachable_server lowest_draws 3 500) = [500, 800, 1280]
   \<and> min (500 * 2 ^ 0) 10000 * (0.8 + 0.4 * lowest_draws 0) = 400
   \<and> js_mul (min (js_mul 500 (2 ^ 0)) 10000) (jitter (lowest_draws 0)) = 400
   \<and> delays (fetchWithRetry unreachable_server lowest_draws 3 500) ! 0
       \<noteq> js_mul (min (js_mul 500 (2 ^ 0)) 10000) (jitter (lowest_draws 0))
   \<and> min (500 * 2 ^ 2) 10000 * (0.8 + 0.4 * lowest_draws 2) = 1600
   \<and> js_mul (min (js_mul 500 (2 ^ 2)) 10000) (jitter (lowest_draws 2)) = 1600
   \<and> delays (fetchWithRetry unreachable_server lowest_draws 3 500) ! 2
       \<noteq> js_mul (min (js_mul 500 (2 ^ 2)) 10000) (jitter (lowest_draws 2))
   \<and> draw (highest_draws 0) \<and> draw (highest_draws 1) \<and> draw (highest_draws 2)
   \<and> draw (highest_draws 3)
   \<and> delays (fetchWithRetry unreachable_server highest_draws 5 500) ! 4 = 12000
   \<and> 10000 < delays (fetchWithRetry unreachable_server highest_draws 5 500) ! 4"
proof -
  have f: "js_mul (min (js_mul 500 (2 ^ 0)) 10000) (jitter (lowest_draws 0)) = 400"
          "js_mul (min (js_mul 500 (2 ^ 2)) 10000) (jitter (lowest_draws 2)) = 1600"
    by (simp_all add: lowest_draws_def js_mul_def js_add_def jitter_def fl_literals fl_fixed)
       (simp_all add: fl_eval)
  have g: "min (500 * 2 ^ 0) 10000 * (0.8 + 0.4 * lowest_draws 0) = 400"
          "min (500 * 2 ^ 2) 10000 * (0.8 + 0.4 * lowest_draws 2) = 1600"
    by (simp_all add: lowest_draws_def)
  show ?thesis
    unfolding lowest_run highest_run f g
    using draw_lowest draw_highest by simp
qed

text \<open>
  Claim C7, amended (base delay 500 ms, every draw of \<open>Math.random()\<close> a double from 0
  inclusive to 1 exclusive, all arithmetic in doubles). There is one delay per retry. The
  delay before the first retry is exactly 500 ms, without jitter. Each later delay is the
  product of \<open>Math.min(previous delay * 2, 10000)\<close> and a factor \<open>0.8 + Math.random() * 0.4\<close>
  with a fresh draw; the factor lies between the doubles \<open>0.8\<close> and \<open>1.2\<close> inclusive, and the
  delay between that capped double times \<open>0.8\<close> and times \<open>1.2\<close>, so the jitter compounds
  from retry to retry and the cap applies before the jitter. Every delay lies between 500
  and 12000 ms, the second between 800 and 1200 ms and the third between 1280 and 2880 ms,
  the ends included.
\<close>

theorem C7_backoff_amended:
  assumes "\<forall>k. draw (random k)"
  shows "let ds = delays (fetchWithRetry server random retries 500) in
           length ds \<le> retries
         \<and> length ds + 1 = calls (fetchWithRetry server random retries 500)
         \<and> (0 < length ds \<longrightarrow> ds ! 0 = 500)
         \<and> (\<forall>i. Suc i < length ds \<longrightarrow>
                ds ! Suc i = js_mul (min (js_mul (ds ! i) 2) 10000) (jitter (random i))
              \<and> fl 0.8 \<le> jitter (random i) \<and> jitter (random i) \<le> fl 1.2
              \<and> js_mul (min (js_mul (ds ! i) 2) 10000) (fl 0.8) \<le> ds ! Suc i
              \<and> ds ! Suc i \<le> js_mul (min (js_mul (ds ! i) 2) 10000) (fl 1.2))
         \<and> (\<forall>i<length ds. 500 \<le> ds ! i \<and> ds ! i \<le> 12000)
         \<and> (1 < length ds \<longrightarrow> 800 \<le> ds ! 1 \<and> ds ! 1 \<le> 1200)
         \<and> (2 < length ds \<longrightarrow> 1280 \<le> ds ! 2 \<and> ds ! 2 \<le> 2880)"
proof -
  obtain n where n: "n \<le> retries"
      "delays (fetchWithRetry server random retries 500) = map (backoff random 500) [0..<n]"
      "calls (fetchWithRetry server random retries 500) = n + 1"
    using delays_backoff [of retries server random 500] by blast
  have d: "draw (random i)" for i using assms by simp
  note b = backoff_bounds [OF assms]
  have c: "0 \<le> min (js_mul (backoff random 500 i) 2) 10000" for i
  proof -
    have "(0::real) \<le> 0" "0 \<le> backoff random 500 i * 2" using b [of i] by simp_all
    from fl_mono [OF this] show ?thesis by (simp add: js_mul_def)
  qed
  have step: "js_mul (min (js_mul (backoff random 500 i) 2) 10000) (fl 0.8) \<le> backoff random 500 (Suc i)
            \<and> backoff random 500 (Suc i) \<le> js_mul (min (js_mul (backoff random 500 i) 2) 10000) (fl 1.2)" for i
    using backoff_between [OF d c, of i i] by simp
  note b1 = backoff_first [OF assms]
  note b2 = backoff_second [OF assms]
  note j = jitter_range [OF d]
  show ?thesis
    unfolding Let_def n(2) n(3)
    using n(1) b step b1 b2 j by (auto simp: numeral_2_eq_2 simp del: backoff.simps(2))
      (simp_all)
qed

text \<open>
  The run with no attempt answered and every draw equal to the largest double below 1:
  the factor is the double \<open>1.2\<close> and the upper ends of the ranges are reached.
\<close>

theorem C7_backoff_amended_witness:
  "draw (highest_draws 0) \<and> draw (highest_draws 1) \<and> draw (highest_draws 2)
   \<and> draw (highest_draws 3)
   \<and> delays (fetchWithRetry unreachable_server highest_draws 5 500) = [500, 1200, 2880, 6912, 12000]
   \<and> jitter (highest_draws 0) = fl 1.2"
proof -
  have h: "\<forall>k. draw (highest_draws k)" using draw_highest by simp
  have j: "jitter (highest_draws 0) = fl 1.2"
    unfolding fl_12 by (simp add: highest_draws_def jitter_def js_add_def js_mul_def fl_literals) (simp add: fl_eval)
  have d: "draw (highest_draws 0)" "draw (highest_draws 1)" "draw (highest_draws 2)" "draw (highest_draws 3)"
    by (rule draw_highest)+
  from C7_backoff_amended [OF h, of unreachable_server 5]
  show ?thesis
    unfolding highest_run using j d by simp
qed

section \<open>Properties of the create-ticket submission\<close>

lemma truthy_simps [simp]:
  "truthy None = False" "truthy (Some s) = (s \<noteq> [])"
  by (simp_all add: truthy_def)

lemmas sample_defs =
  valid_submission_def quick_env_def fresh_locals_def ann_def no_email_submission_def
  spaces_subject_submission_def merge_request_def ticket_selected_def intercom_down_def

lemmas js_defs =
  input_value_def is_blank_def js_trim_def is_space_def or_default_def js_or_def

lemma fetch_choices_of_awaits:
  "set (snd (fetch_choices_of env fs name)) \<subseteq> range (\<lambda>i. Await (GetTicketField i))"
  by (auto simp add: fetch_choices_of_def split: option.splits)

lemma fetch_form_choices_awaits:
  "set (snd (fetch_form_choices env))
     \<subseteq> {Await GetMailboxes, Await GetTicketFields} \<union> range (\<lambda>i. Await (GetTicketField i))"
proof -
  have a: "\<And>fs name x y. fetch_choices_of env fs name = (x, y)
      \<Longrightarrow> set y \<subseteq> range (\<lambda>i. Await (GetTicketField i))"
    using fetch_choices_of_awaits by (metis snd_conv)
  show ?thesis
    unfolding fetch_form_choices_def
    by (auto split: sum.splits prod.splits dest!: a)
qed

lemma run_awaits_then_send:
  assumes "set awaited \<subseteq> range Await"
  shows "replies (run (awaited @ [SendResponse body])) = [body]"
proof -
  have "foldl perform r awaited = r" for r
    using assms by (induction awaited arbitrary: r) auto
  then show ?thesis
    by (simp add: run_def new_responder_def sendResponse_def res_json_def)
qed

lemma validation_components:
  "components_of (validation_reply req sc pc) = errorForm req sc pc"
  by (simp add: components_of_def validation_reply_def)

text \<open>
  Claim C2. When \<open>submit_ticket_button\<close> arrives with an empty email (missing, empty or
  only white space) and a subject that the validation does not count as empty, the
  handler reloads the form data (mailboxes and ticket fields), makes no ticket-creation
  call, schedules no background work and returns the input form: the form is the one
  reply of the handler's run. Its validation-error map has the message
  \<open>Email is required\<close> under \<open>email\<close>; the form starts with an error text, the email input
  (empty, flagged), the subject input and the description, and ends with the submit and
  cancel buttons; the subject input holds the submitted subject unchanged.
\<close>

theorem C2_blank_email_resends_form:
  assumes "is_blank (input_value req ''email'')"
    and "input_value req ''subject'' = Some s"
    and "js_trim s \<noteq> []"
  shows "let awaited = snd (fetch_form_choices env);
             reply = validation_reply req (fst (fst (fetch_form_choices env)))
                                          (snd (fst (fetch_form_choices env)));
             components = components_of reply
         in submit_ticket_button env L req =
              \<lparr>locals_after = L\<lparr>contextEmail := Some (request_email req)\<rparr>,
               did = awaited @ [SendResponse reply], scheduled = None\<rparr>
          \<and> Await CreateTicket \<notin> set awaited
          \<and> replies (run (did (submit_ticket_button env L req))) = [reply]
          \<and> scheduled (submit_ticket_button env L req) = None
          \<and> jget (jget (jget (jget reply ''canvas'') ''content'') ''validation_errors'') ''email''
              = JStr ''Email is required''
          \<and> map (\<lambda>c. (jget c ''type'', jget c ''id'')) (take 4 components)
              = [(JStr ''text'', JUndefined), (JStr ''input'', JStr ''email''),
                 (JStr ''input'', JStr ''subject''), (JStr ''textarea'', JStr ''description'')]
          \<and> map (\<lambda>c. (jget c ''type'', jget c ''id'')) (drop (length components - 2) components)
              = [(JStr ''button'', JStr ''submit_ticket_button''), (JStr ''button'', JStr ''cancel'')]
          \<and> jget (components ! 1) ''value'' = JStr []
          \<and> jget (components ! 1) ''error'' = JStr ''Email is required''
          \<and> jget (components ! 2) ''value'' = JStr s"
proof -
  have sne: "s \<noteq> []" using assms(3) by (auto simp: js_trim_def)
  have nb: "\<not> is_blank (input_value req ''subject'')"
    using assms(2,3) sne by (simp add: is_blank_def)
  have 1: "submit_ticket_button env L req =
              \<lparr>locals_after = L\<lparr>contextEmail := Some (request_email req)\<rparr>,
               did = snd (fetch_form_choices env) @ [SendResponse (validation_reply req (fst (fst (fetch_form_choices env)))
                                          (snd (fst (fetch_form_choices env))))], scheduled = None\<rparr>"
    using assms(1) by (simp add: submit_ticket_button_def Let_def split: prod.splits)
  have 2: "Await CreateTicket \<notin> set (snd (fetch_form_choices env))"
    using fetch_form_choices_awaits [of env] by auto
  have 3: "replies (run (snd (fetch_form_choices env) @ [SendResponse body])) = [body]" for body
    using fetch_form_choices_awaits [of env] by (intro run_awaits_then_send) auto
  have 4: "jget (jget (jget (jget (validation_reply req sc pc) ''canvas'') ''content'') ''validation_errors'') ''email''
              = JStr ''Email is required''" for sc pc
    using assms(1) by (simp add: validation_reply_def)
  have 5: "map (\<lambda>c. (jget c ''type'', jget c ''id'')) (take 4 (errorForm req sc pc))
              = [(JStr ''text'', JUndefined), (JStr ''input'', JStr ''email''),
                 (JStr ''input'', JStr ''subject''), (JStr ''textarea'', JStr ''description'')]" for sc pc
    by (simp add: errorForm_def Let_def)
  have 6: "map (\<lambda>c. (jget c ''type'', jget c ''id'')) (drop (length (errorForm req sc pc) - 2) (errorForm req sc pc))
              = [(JStr ''button'', JStr ''submit_ticket_button''), (JStr ''button'', JStr ''cancel'')]" for sc pc
    by (simp add: errorForm_def Let_def form_buttons_def)
  have 7: "jget (errorForm req sc pc ! 1) ''value'' = JStr []"
          "jget (errorForm req sc pc ! 1) ''error'' = JStr ''Email is required''" for sc pc
    using assms(1) by (simp_all add: errorForm_def Let_def)
  have 8: "jget (errorForm req sc pc ! 2) ''value'' = JStr s" for sc pc
    using nb assms(2) sne by (simp add: errorForm_def Let_def js_or_def or_default_def)
  show ?thesis
    unfolding Let_def validation_components
    unfolding 1
    using 2 3 4 5 6 7 8 by simp
qed


lemma quick_form_choices:
  "fetch_form_choices quick_env =
     (([open_choice], [open_choice]),
      [Await GetMailboxes, Await GetTicketFields, Await (GetTicketField 11), Await (GetTicketField 12)])"
  by (simp add: fetch_form_choices_def fetch_choices_of_def quick_env_def open_choice_def)

text \<open>An empty email with the subject \<open>Printer on fire\<close>.\<close>

theorem C2_blank_email_resends_form_witness:
  "is_blank (input_value no_email_submission ''email'')
   \<and> input_value no_email_submission ''subject'' = Some ''Printer on fire''
   \<and> js_trim ''Printer on fire'' \<noteq> []
   \<and> did (submit_ticket_button quick_env fresh_locals no_email_submission) =
        [Await GetMailboxes, Await GetTicketFields, Await (GetTicketField 11), Await (GetTicketField 12),
         SendResponse (validation_reply no_email_submission [open_choice] [open_choice])]
   \<and> scheduled (submit_ticket_button quick_env fresh_locals no_email_submission) = None
   \<and> replies (run (did (submit_ticket_button quick_env fresh_locals no_email_submission)))
        = [validation_reply no_email_submission [open_choice] [open_choice]]
   \<and> jget (components_of (validation_reply no_email_submission [open_choice] [open_choice]) ! 2) ''value''
        = JStr ''Printer on fire''"
proof -
  have a: "is_blank (input_value no_email_submission ''email'')"
    by (simp add: no_email_submission_def valid_submission_def input_value_def is_blank_def)
  have b: "input_value no_email_submission ''subject'' = Some ''Printer on fire''"
    by (simp add: no_email_submission_def valid_submission_def input_value_def)
  have c: "js_trim ''Printer on fire'' \<noteq> []"
    by (simp add: js_trim_def is_space_def)
  note T = C2_blank_email_resends_form [OF a b c, of quick_env fresh_locals,
      unfolded Let_def quick_form_choices fst_conv snd_conv]
  have e: "submit_ticket_button quick_env fresh_locals no_email_submission =
      \<lparr>locals_after = fresh_locals\<lparr>contextEmail := Some (request_email no_email_submission)\<rparr>,
       did = [Await GetMailboxes, Await GetTicketFields, Await (GetTicketField 11), Await (GetTicketField 12)]
             @ [SendResponse (validation_reply no_email_submission [open_choice] [open_choice])],
       scheduled = None\<rparr>"
    by (rule T [THEN conjunct1])
  have r: "replies (run (did (submit_ticket_button quick_env fresh_locals no_email_submission)))
        = [validation_reply no_email_submission [open_choice] [open_choice]]"
    by (rule T [THEN conjunct2, THEN conjunct2, THEN conjunct1])
  have v: "jget (components_of (validation_reply no_email_submission [open_choice] [open_choice]) ! 2) ''value''
        = JStr ''Printer on fire''"
    using T by blast
  have d: "did (submit_ticket_button quick_env fresh_locals no_email_submission) =
        [Await GetMailboxes, Await GetTicketFields, Await (GetTicketField 11), Await (GetTicketField 12),
         SendResponse (validation_reply no_email_submission [open_choice] [open_choice])]"
    and n: "scheduled (submit_ticket_button quick_env fresh_locals no_email_submission) = None"
    unfolding e by simp_all
  show ?thesis using a b c d n r v by simp
qed

text \<open>
  A subject of white space only is empty for the validation: with an empty email and a
  subject of two spaces, both fields are flagged and the subject input is sent back
  empty.
\<close>

lemma spaces_subject_is_flagged:
  "is_blank (input_value spaces_subject_submission ''email'')
   \<and> input_value spaces_subject_submission ''subject'' = Some ''  ''
   \<and> did (submit_ticket_button quick_env fresh_locals spaces_subject_submission) =
        [Await GetMailboxes, Await GetTicketFields, Await (GetTicketField 11), Await (GetTicketField 12),
         SendResponse (validation_reply spaces_subject_submission [open_choice] [open_choice])]
   \<and> jget (components_of (validation_reply spaces_subject_submission [open_choice] [open_choice]) ! 2) ''value''
        = JStr []
   \<and> jget (components_of (validation_reply spaces_subject_submission [open_choice] [open_choice]) ! 2) ''error''
        = JStr ''Subject is required''"
proof -
  have a: "is_blank (input_value spaces_subject_submission ''email'')"
    by (simp add: spaces_subject_submission_def valid_submission_def input_value_def is_blank_def)
  have b: "input_value spaces_subject_submission ''subject'' = Some ''  ''"
    by (simp add: spaces_subject_submission_def valid_submission_def input_value_def)
  have c: "is_blank (input_value spaces_subject_submission ''subject'')"
    by (simp add: b is_blank_def js_trim_def is_space_def)
  have d: "did (submit_ticket_button quick_env fresh_locals spaces_subject_submission) =
        [Await GetMailboxes, Await GetTicketFields, Await (GetTicketField 11), Await (GetTicketField 12),
         SendResponse (validation_reply spaces_subject_submission [open_choice] [open_choice])]"
    using a by (simp add: submit_ticket_button_def Let_def quick_form_choices)
  have e: "jget (components_of (validation_reply spaces_subject_submission [open_choice] [open_choice]) ! 2) ''value''
        = JStr []"
    using c by (simp add: validation_components errorForm_def Let_def)
  have f: "jget (components_of (validation_reply spaces_subject_submission [open_choice] [open_choice]) ! 2) ''error''
        = JStr ''Subject is required''"
    using c by (simp add: validation_components errorForm_def Let_def)
  show ?thesis using a b d e f by simp
qed


section \<open>Properties of the transcript helper\<close>

text \<open>
  Claim C9. \<open>addConversationTranscriptToTicket\<close> returns the ticket data it was given,
  unchanged, when no conversation id is given (it is \<open>undefined\<close> or empty), when the
  conversation cannot be fetched, and when formatting the fetched conversation throws.
\<close>

theorem C9_failed_transcript_returns_ticket:
  "(\<not> truthy conversationId
     \<or> fetchIntercomConversation env (the conversationId) = None
     \<or> (\<exists>conv thrown. fetchIntercomConversation env (the conversationId) = Some conv
            \<and> formatConversationAsHtml env conv = Inl thrown))
   \<longrightarrow> fst (addConversationTranscriptToTicket env t conversationId) = t"
  by (auto simp add: addConversationTranscriptToTicket_def Let_def split: option.splits sum.splits)

text \<open>
  The three failures on concrete data, and, for contrast, a run in which the transcript
  is built: there the description and the attachments of the result differ from the
  argument's.
\<close>

theorem C9_failed_transcript_returns_ticket_witness:
  "\<not> truthy (Some [])
   \<and> fst (addConversationTranscriptToTicket working_transcript sample_ticketData (Some [])) = sample_ticketData
   \<and> fst (addConversationTranscriptToTicket working_transcript sample_ticketData None) = sample_ticketData
   \<and> fetchIntercomConversation (helper_of intercom_down) ''c1'' = None
   \<and> fst (addConversationTranscriptToTicket (helper_of intercom_down) sample_ticketData (Some ''c1''))
       = sample_ticketData
   \<and> formatConversationAsHtml broken_transcript (JObj [(''id'', JStr ''c1'')]) = Inl (Thrown ''Invalid time value'')
   \<and> fst (addConversationTranscriptToTicket broken_transcript sample_ticketData (Some ''c1''))
       = sample_ticketData
   \<and> fst (addConversationTranscriptToTicket working_transcript sample_ticketData (Some ''c1''))
       = sample_ticketData
           \<lparr>td_description := Some (urlSection ''https://inbox.example/conversation/c1''
                                     @ ''<html><body></body></html>''),
            td_attachments := Some [\<lparr>upload_name = ''a.png'',
                                     upload_content_type = ''application/octet-stream'',
                                     upload_buffer = ''PNG''\<rparr>]\<rparr>"
proof -
  have w: "fst (addConversationTranscriptToTicket working_transcript sample_ticketData (Some ''c1''))
       = sample_ticketData
           \<lparr>td_description := Some (urlSection ''https://inbox.example/conversation/c1''
                                     @ ''<html><body></body></html>''),
            td_attachments := Some [\<lparr>upload_name = ''a.png'',
                                     upload_content_type = ''application/octet-stream'',
                                     upload_buffer = ''PNG''\<rparr>]\<rparr>"
    by (simp add: addConversationTranscriptToTicket_def working_transcript_def sample_ticketData_def
        Let_def js_includes_def or_default_def)
  have f: "fetchIntercomConversation (helper_of intercom_down) ''c1'' = None"
    by (simp add: helper_of_def helper_env.truncate_def intercom_down_def)
  have g: "formatConversationAsHtml broken_transcript (JObj [(''id'', JStr ''c1'')]) = Inl (Thrown ''Invalid time value'')"
     "fetchIntercomConversation broken_transcript ''c1'' = Some (JObj [(''id'', JStr ''c1'')])"
    by (simp_all add: broken_transcript_def)
  show ?thesis
    using C9_failed_transcript_returns_ticket [of "Some []" working_transcript sample_ticketData]
      C9_failed_transcript_returns_ticket [of None working_transcript sample_ticketData]
      C9_failed_transcript_returns_ticket [of "Some ''c1''" "helper_of intercom_down" sample_ticketData]
      C9_failed_transcript_returns_ticket [of "Some ''c1''" broken_transcript sample_ticketData]
      w f g
    by simp
qed



section \<open>Properties of the reply protocol\<close>

lemmas submit_defs =
  submit_ticket_button_def defaultDescription_def request_email_def home_recent_def
  js_replace_def request_conversation_id_def

lemma valid_submission_did:
  "did (submit_ticket_button quick_env fresh_locals valid_submission) =
     [Await (ListTickets ann 5), Await (ListTickets ann 20), Track ann True,
      SendResponse (home_page_after_submit [])]"
  by (simp add: submit_defs sample_defs js_defs Let_def)

lemma valid_submission_scheduled:
  "scheduled (submit_ticket_button quick_env fresh_locals valid_submission) =
     Some \<lparr>job_email = ann, job_subject = ''Printer on fire'', job_description = ''It burns'',
           job_status = [], job_priority = [], job_conversationId = Some ''c1''\<rparr>"
  by (simp add: submit_defs sample_defs js_defs Let_def)

lemma ticket_job_when_intercom_down:
  "run_ticket_job intercom_down
     \<lparr>job_email = ann, job_subject = ''Printer on fire'', job_description = ''It burns'',
      job_status = [], job_priority = [], job_conversationId = Some ''c1''\<rparr>
   = [Await (FetchConversation ''c1''), Await (FetchConversation ''c1''), Await CreateTicket,
      PostIntercomNote ''c1''
        (''Freshdesk Ticket creation successful.'' @ nl @ ''Ticket URL: https://desk.example/a/tickets/77''),
      Track ann False]"
  by (simp add: run_ticket_job_def intercom_down_def addConversationTranscriptToTicket_def Let_def
      helper_of_def helper_env.truncate_def string_of_nat.simps digit_char_def)

lemma merge_request_started:
  "merge_ticket quick_env intercom_down ticket_selected merge_request =
     Started [Await (ListTickets ann 5), SendResponse (canvas merge_home_buttons)]
             [Await (FetchConversation ''c1''),
              PostIntercomNote ''c1''
                ''Failed to add note to Freshdesk ticket. Details: Invalid conversation data provided for transcript generation.'']"
  by (simp add: merge_ticket_def merge_ticket_reply_def merge_ticket_background_def sample_defs js_defs
      Let_def request_email_def fetchRecentTickets_def)

text \<open>
  Claim C1 on the code. A valid create-ticket submission awaits two ticket-list calls
  before it hands the home page to \<open>sendResponse\<close>. When the nine-second timer fires
  during the first of them, the request gets no reply at all: the timer's callback sets
  \<open>responseSent\<close> on entry and therefore never passes its own final test of the flag, and
  the handler's \<open>sendResponse\<close> then finds the flag set. Without the timer the same
  request gets exactly one reply. In general the callback never adds a reply, and a
  \<open>sendResponse\<close> after the timer has fired sends nothing.
\<close>

theorem C1_timer_first_sends_nothing:
  "did (submit_ticket_button quick_env fresh_locals valid_submission) =
     [Await (ListTickets ann 5), Await (ListTickets ann 20), Track ann True,
      SendResponse (home_page_after_submit [])]
   \<and> timer_during 1 timeout_page (did (submit_ticket_button quick_env fresh_locals valid_submission)) =
       Some [Await (ListTickets ann 5), TimerFires timeout_page, Await (ListTickets ann 20),
             Track ann True, SendResponse (home_page_after_submit [])]
   \<and> replies (run [Await (ListTickets ann 5), TimerFires timeout_page, Await (ListTickets ann 20),
                   Track ann True, SendResponse (home_page_after_submit [])]) = []
   \<and> replies (run (did (submit_ticket_button quick_env fresh_locals valid_submission)))
       = [home_page_after_submit []]
   \<and> replies (timeout_callback fallback r) = replies r
   \<and> replies (sendResponse body (timer_fires fallback new_responder)) = []"
  unfolding valid_submission_did
  by (simp add: timer_during_def run_def new_responder_def timer_fires_def timeout_callback_def
      sendResponse_def res_json_def Let_def)

text \<open>
  Claim C6 on the code. For a \<open>merge_ticket\<close> event without a stored home state, the
  reply block awaits the recent tickets while the background block awaits the
  conversation; when the conversation call resolves first (here it fails), the failure
  note is posted before the reply is sent. For a create-ticket submission during whose
  first awaited call the timer fires, no reply is ever sent, and the scheduled ticket
  creation still posts its note.
\<close>

theorem C6_note_before_reply:
  "merge_ticket quick_env intercom_down ticket_selected merge_request =
     Started [Await (ListTickets ann 5), SendResponse (canvas merge_home_buttons)]
             [Await (FetchConversation ''c1''),
              PostIntercomNote ''c1''
                ''Failed to add note to Freshdesk ticket. Details: Invalid conversation data provided for transcript generation.'']
   \<and> started_in_turn
         [Await (ListTickets ann 5), SendResponse (canvas merge_home_buttons)]
         [Await (FetchConversation ''c1''),
          PostIntercomNote ''c1''
            ''Failed to add note to Freshdesk ticket. Details: Invalid conversation data provided for transcript generation.''] ! 1
       = [Await (ListTickets ann 5), Await (FetchConversation ''c1''),
          PostIntercomNote ''c1''
            ''Failed to add note to Freshdesk ticket. Details: Invalid conversation data provided for transcript generation.'',
          SendResponse (canvas merge_home_buttons)]
   \<and> \<not> notes_after_reply new_responder
         [Await (ListTickets ann 5), Await (FetchConversation ''c1''),
          PostIntercomNote ''c1''
            ''Failed to add note to Freshdesk ticket. Details: Invalid conversation data provided for transcript generation.'',
          SendResponse (canvas merge_home_buttons)]
   \<and> \<not> notes_after_reply new_responder
         ([Await (ListTickets ann 5), TimerFires timeout_page, Await (ListTickets ann 20),
           Track ann True, SendResponse (home_page_after_submit [])]
          @ run_ticket_job intercom_down
              (the (scheduled (submit_ticket_button quick_env fresh_locals valid_submission))))"
  unfolding merge_request_started valid_submission_scheduled option.sel ticket_job_when_intercom_down
  by (simp add: started_in_turn_def segments_def new_responder_def timer_fires_def
      timeout_callback_def sendResponse_def res_json_def Let_def)


text \<open>The order of the note and the reply in the run above, and what the two blocks are.\<close>

theorem C6_note_before_reply_witness:
  "merge_ticket quick_env intercom_down ticket_selected merge_request =
     Started [Await (ListTickets ann 5), SendResponse (canvas merge_home_buttons)]
             [Await (FetchConversation ''c1''),
              PostIntercomNote ''c1''
                ''Failed to add note to Freshdesk ticket. Details: Invalid conversation data provided for transcript generation.'']
   \<and> \<not> notes_after_reply new_responder
         [Await (ListTickets ann 5), Await (FetchConversation ''c1''),
          PostIntercomNote ''c1''
            ''Failed to add note to Freshdesk ticket. Details: Invalid conversation data provided for transcript generation.'',
          SendResponse (canvas merge_home_buttons)]"
  using C6_note_before_reply by simp



section \<open>Inline images of a conversation part\<close>

text \<open>
  The search for the last source attribute before the first closing bracket of a tag, the
  test for a tag at the head of the text, and the left-to-right scan are characterised
  first. Then the replacement of every matched tag by its placeholder, one
  \<open>String.prototype.replace\<close> after the other, is shown to rewrite the tags where they
  stand, as long as no placeholder contains a dollar sign or an opening angle bracket.
\<close>


lemma takeWhile_until: "c \<notin> set xs \<Longrightarrow> takeWhile (\<lambda>x. x \<noteq> c) (xs @ c # ys) = xs"
  by (induction xs) auto

lemma dropWhile_until: "c \<notin> set xs \<Longrightarrow> dropWhile (\<lambda>x. x \<noteq> c) (xs @ c # ys) = c # ys"
  by (induction xs) auto

lemma after_src_complete:
  assumes "url \<noteq> []" "CHR 0x22 \<notin> set url" "CHR ''>'' \<notin> set tail"
  shows "after_src (url @ CHR 0x22 # tail @ CHR ''>'' # b) = Some (url, b)"
proof -
  have 1: "takeWhile (\<lambda>c. c \<noteq> CHR 0x22) (url @ CHR 0x22 # tail @ CHR ''>'' # b) = url"
    using assms(2) by (rule takeWhile_until)
  have 2: "dropWhile (\<lambda>c. c \<noteq> CHR 0x22) (url @ CHR 0x22 # tail @ CHR ''>'' # b)
           = CHR 0x22 # tail @ CHR ''>'' # b"
    using assms(2) by (rule dropWhile_until)
  have 3: "dropWhile (\<lambda>c. c \<noteq> CHR ''>'') (tail @ CHR ''>'' # b) = CHR ''>'' # b"
    using assms(3) by (rule dropWhile_until)
  show ?thesis
    unfolding after_src_def Let_def 1 2 using assms(1) 3 by simp
qed

lemma after_src_sound:
  assumes "after_src x = Some (url, rest)"
  shows "\<exists>tail. x = url @ CHR 0x22 # tail @ CHR ''>'' # rest
           \<and> url \<noteq> [] \<and> CHR 0x22 \<notin> set url \<and> CHR ''>'' \<notin> set tail"
proof -
  let ?q = "\<lambda>c. c \<noteq> CHR 0x22"
  let ?g = "\<lambda>c. c \<noteq> CHR ''>''"
  let ?r1 = "dropWhile ?q x"
  let ?r3 = "dropWhile ?g (tl ?r1)"
  from assms have r: "takeWhile ?q x = url" "url \<noteq> []" "?r1 \<noteq> []" "?r3 \<noteq> []" "rest = tl ?r3"
    by (auto simp add: after_src_def Let_def split: if_splits)
  have h1: "hd ?r1 = CHR 0x22" using r(3) hd_dropWhile [of ?q x] by auto
  have h3: "hd ?r3 = CHR ''>''" using r(4) hd_dropWhile [of ?g "tl ?r1"] by auto
  have x: "x = url @ ?r1" using r(1) takeWhile_dropWhile_id [of ?q x] by simp
  have r1: "?r1 = CHR 0x22 # tl ?r1" using r(3) h1 by (cases ?r1) auto
  have t: "tl ?r1 = takeWhile ?g (tl ?r1) @ ?r3" by simp
  have r3: "?r3 = CHR ''>'' # rest" using r(4,5) h3 by (cases ?r3) auto
  have nq: "CHR 0x22 \<notin> set url" using r(1) set_takeWhileD [of _ ?q x] by auto
  have ng: "CHR ''>'' \<notin> set (takeWhile ?g (tl ?r1))" using set_takeWhileD [of _ ?g "tl ?r1"] by auto
  have "x = url @ CHR 0x22 # takeWhile ?g (tl ?r1) @ CHR ''>'' # rest"
    using x r1 t r3 by metis
  then show ?thesis using r(2) nq ng by blast
qed


lemma length_src_eq [simp]: "length src_eq = 5"
  by (simp add: src_eq_def dq_def)

lemma src_here:
  assumes "ci_prefix src_eq s" "after_src (drop 5 s) = Some (url, rest)"
  shows "\<exists>sr tail. s = sr @ url @ CHR 0x22 # tail @ CHR ''>'' # rest
           \<and> map ascii_lower sr = src_eq
           \<and> url \<noteq> [] \<and> CHR 0x22 \<notin> set url \<and> CHR ''>'' \<notin> set tail"
proof -
  from after_src_sound [OF assms(2)] obtain tail where
    t: "drop 5 s = url @ CHR 0x22 # tail @ CHR ''>'' # rest"
       "url \<noteq> []" "CHR 0x22 \<notin> set url" "CHR ''>'' \<notin> set tail" by blast
  have "s = take 5 s @ drop 5 s" by simp
  then have "s = take 5 s @ url @ CHR 0x22 # tail @ CHR ''>'' # rest"
    using t(1) by simp
  moreover have "map ascii_lower (take 5 s) = src_eq"
    using assms(1) by (simp add: ci_prefix_def)
  ultimately show ?thesis using t(2-4) by blast
qed

lemma last_src_sound:
  assumes "last_src t = Some (url, rest)"
  shows "\<exists>pre sr tail. t = pre @ sr @ url @ CHR 0x22 # tail @ CHR ''>'' # rest
           \<and> CHR ''>'' \<notin> set pre \<and> map ascii_lower sr = src_eq
           \<and> url \<noteq> [] \<and> CHR 0x22 \<notin> set url \<and> CHR ''>'' \<notin> set tail"
  using assms
proof (induction t)
  case Nil
  then show ?case by simp
next
  case (Cons c t)
  show ?case
  proof (cases "if c = CHR ''>'' then None else last_src t")
    case None
    with Cons.prems have p: "ci_prefix src_eq (c # t)" and a: "after_src (drop 5 (c # t)) = Some (url, rest)"
      by (simp_all split: if_splits)
    from src_here [OF p a] show ?thesis by (metis append_Nil empty_iff empty_set)
  next
    case (Some m)
    then have c: "c \<noteq> CHR ''>''" and l: "last_src t = Some (url, rest)"
      using Cons.prems by (auto split: if_splits)
    from Cons.IH [OF l] obtain pre sr tail where
      t: "t = pre @ sr @ url @ CHR 0x22 # tail @ CHR ''>'' # rest"
         "CHR ''>'' \<notin> set pre" "map ascii_lower sr = src_eq"
         "url \<noteq> []" "CHR 0x22 \<notin> set url" "CHR ''>'' \<notin> set tail" by blast
    have "c # t = (c # pre) @ sr @ url @ CHR 0x22 # tail @ CHR ''>'' # rest" using t(1) by simp
    moreover have "CHR ''>'' \<notin> set (c # pre)" using c t(2) by simp
    ultimately show ?thesis using t(3-6) by blast
  qed
qed

lemma last_src_complete:
  assumes "CHR ''>'' \<notin> set pre" "ci_prefix src_eq y" "after_src (drop 5 y) \<noteq> None"
  shows "last_src (pre @ y) \<noteq> None"
  using assms(1)
proof (induction pre)
  case Nil
  from assms(2) have "y \<noteq> []" by (auto simp: ci_prefix_def)
  then obtain c t where y: "y = c # t" by (cases y) auto
  show ?case using assms(2,3) unfolding y by (auto split: option.splits)
next
  case (Cons c pre)
  then have "last_src (pre @ y) \<noteq> None" "c \<noteq> CHR ''>''" by auto
  then show ?case by (auto split: option.splits)
qed




lemma lowered_absent:
  assumes "map ascii_lower h = lit" "d \<notin> set lit" "ascii_lower d = d"
  shows "d \<notin> set h"
proof
  assume "d \<in> set h"
  then have "ascii_lower d \<in> set (map ascii_lower h)" by simp
  then show False using assms by simp
qed

lemma ascii_lower_fixed [simp]:
  "ascii_lower CHR ''>'' = CHR ''>''" "ascii_lower CHR 0x22 = CHR 0x22"
  "ascii_lower CHR ''['' = CHR ''[''" "ascii_lower CHR ''<'' = CHR ''<''"
  by (simp_all add: ascii_lower_def)

lemma img_head:
  assumes "map ascii_lower h = ''<img''"
  shows "length h = 4" "CHR ''>'' \<notin> set h" "CHR 0x22 \<notin> set h" "CHR ''['' \<notin> set h" "h \<noteq> []"
proof -
  show "length h = 4" using arg_cong [OF assms, of length] by simp
  show "CHR ''>'' \<notin> set h" by (rule lowered_absent [OF assms]) simp_all
  show "CHR 0x22 \<notin> set h" by (rule lowered_absent [OF assms]) simp_all
  show "CHR ''['' \<notin> set h" by (rule lowered_absent [OF assms]) simp_all
  show "h \<noteq> []" using assms by auto
qed

lemma src_head:
  assumes "map ascii_lower sr = src_eq"
  shows "length sr = 5" "CHR ''>'' \<notin> set sr" "CHR 0x22 \<in> set sr"
proof -
  show "length sr = 5" using arg_cong [OF assms, of length] by simp
  show "CHR ''>'' \<notin> set sr" by (rule lowered_absent [OF assms]) (simp_all add: src_eq_def dq_def)
  have "last (map ascii_lower sr) = CHR 0x22" unfolding assms by (simp add: src_eq_def dq_def)
  moreover have "sr \<noteq> []" using assms by (auto simp: src_eq_def)
  ultimately have l: "ascii_lower (last sr) = CHR 0x22" by (simp add: last_map)
  have "last sr = CHR 0x22"
  proof (rule ccontr)
    assume n: "last sr \<noteq> CHR 0x22"
    then have "ascii_lower (last sr) \<noteq> last sr" using l by auto
    then obtain x where "map_of (zip ''ABCDEFGHIJKLMNOPQRSTUVWXYZ'' ''abcdefghijklmnopqrstuvwxyz'') (last sr) = Some x"
        "ascii_lower (last sr) = x"
      by (auto simp add: ascii_lower_def split: option.splits)
    then have "CHR 0x22 \<in> set ''abcdefghijklmnopqrstuvwxyz''"
      using l by (metis map_of_SomeD set_zip_rightD)
    then show False by simp
  qed
  then show "CHR 0x22 \<in> set sr" using \<open>sr \<noteq> []\<close> last_in_set by metis
qed

lemma is_space_not [simp]: "\<not> is_space CHR ''['' " "\<not> is_space CHR ''>''" "\<not> is_space CHR 0x22"
  "\<not> is_space CHR ''<''"
  by (simp_all add: is_space_def)


lemma ci_prefix_img: "ci_prefix ''<img'' s \<longleftrightarrow> 4 \<le> length s \<and> map ascii_lower (take 4 s) = ''<img''"
proof -
  have "length ''<img'' = (4::nat)" by simp
  then show ?thesis by (metis ci_prefix_def)
qed

lemma ci_prefix_src: "ci_prefix src_eq s \<longleftrightarrow> 5 \<le> length s \<and> map ascii_lower (take 5 s) = src_eq"
  by (metis ci_prefix_def length_src_eq)

lemma match_here_Some:
  assumes "match_here s = Some (tag, url, rest)"
  shows "ci_prefix ''<img'' s" "4 < length s" "is_space (s ! 4)"
    "last_src (drop 5 s) = Some (url, rest)" "tag = take (length s - length rest) s"
proof -
  have c: "ci_prefix ''<img'' s \<and> 4 < length s \<and> is_space (s ! 4)"
    using assms unfolding match_here_def by (metis option.distinct(1))
  then show "ci_prefix ''<img'' s" "4 < length s" "is_space (s ! 4)" by simp_all
  from c assms have m: "(case last_src (drop 5 s) of
              Some (url, rest) \<Rightarrow> Some (take (length s - length rest) s, url, rest)
            | None \<Rightarrow> None) = Some (tag, url, rest)"
    unfolding match_here_def by simp
  then obtain u r where l: "last_src (drop 5 s) = Some (u, r)"
    by (cases "last_src (drop 5 s)") auto
  with m have "u = url" "r = rest" "tag = take (length s - length r) s" by auto
  with l show "last_src (drop 5 s) = Some (url, rest)" "tag = take (length s - length rest) s"
    by auto
qed

lemma take_front: "s = front @ rest \<Longrightarrow> take (length s - length rest) s = front"
  by simp

lemma match_here_sound:
  assumes "match_here s = Some (tag, url, rest)"
  shows "s = tag @ rest \<and> is_img_tag tag"
proof -
  note 1 = match_here_Some [OF assms]
  from last_src_sound [OF 1(4)] obtain pre sr tail where
    t: "drop 5 s = pre @ sr @ url @ CHR 0x22 # tail @ CHR ''>'' # rest"
       "CHR ''>'' \<notin> set pre" "map ascii_lower sr = src_eq"
       "url \<noteq> []" "CHR 0x22 \<notin> set url" "CHR ''>'' \<notin> set tail" by blast
  have h: "map ascii_lower (take 4 s) = ''<img''" using 1(1) by (simp only: ci_prefix_img)
  define body where "body = pre @ sr @ url @ CHR 0x22 # tail @ [CHR ''>'']"
  define front where "front = take 4 s @ s ! 4 # body"
  have d5: "body @ rest = drop 5 s" using t(1) by (simp add: body_def)
  have d4: "s ! 4 # drop 5 s = drop 4 s"
    using Cons_nth_drop_Suc [OF 1(2)] by simp
  have s: "s = front @ rest"
    unfolding front_def by (simp only: append_assoc append_Cons d5 d4 append_take_drop_id)
  have tag: "tag = front"
    unfolding 1(5) by (rule take_front [OF s])
  have "front = take 4 s @ s ! 4 # pre @ sr @ url @ CHR 0x22 # tail @ [CHR ''>'']
        \<and> map ascii_lower (take 4 s) = ''<img'' \<and> is_space (s ! 4) \<and> CHR ''>'' \<notin> set pre
        \<and> map ascii_lower sr = src_eq \<and> url \<noteq> [] \<and> CHR 0x22 \<notin> set url
        \<and> CHR ''>'' \<notin> set tail"
    using h 1(3) t(2-6) by (simp add: front_def body_def)
  then have "is_img_tag front"
    unfolding is_img_tag_def by (intro exI)
  then show ?thesis unfolding tag using s by (intro conjI)
qed




lemma is_img_tagE:
  assumes "is_img_tag t"
  obtains h c0 pre sr url tail where
    "t = h @ c0 # pre @ sr @ url @ CHR 0x22 # tail @ [CHR ''>'']"
    "map ascii_lower h = ''<img''" "is_space c0" "CHR ''>'' \<notin> set pre"
    "map ascii_lower sr = src_eq" "url \<noteq> []" "CHR 0x22 \<notin> set url" "CHR ''>'' \<notin> set tail"
  using assms unfolding is_img_tag_def by (elim exE conjE) (rule that)

lemma match_here_body:
  assumes "map ascii_lower h = ''<img''" "is_space c0" "last_src body \<noteq> None"
  shows "match_here (h @ c0 # body) \<noteq> None"
proof -
  note hh = img_head [OF assms(1)]
  have a: "ci_prefix ''<img'' (h @ c0 # body)" unfolding ci_prefix_img using assms(1) hh(1) by simp
  have b4: "4 < length (h @ c0 # body)" using hh(1) by simp
  have c: "(h @ c0 # body) ! 4 = c0" using hh(1) by (simp add: nth_append)
  have d: "drop 5 (h @ c0 # body) = body" using hh(1) by simp
  obtain m where "last_src body = Some m" using assms(3) by auto
  then show ?thesis
    unfolding match_here_def d c using a b4 assms(2) by (cases m) simp
qed

lemma match_here_complete:
  assumes "is_img_tag t"
  shows "match_here (t @ b) \<noteq> None"
proof -
  from assms obtain h c0 pre sr url tail where
    t: "t = h @ c0 # pre @ sr @ url @ CHR 0x22 # tail @ [CHR ''>'']"
       "map ascii_lower h = ''<img''" "is_space c0" "CHR ''>'' \<notin> set pre"
       "map ascii_lower sr = src_eq" "url \<noteq> []" "CHR 0x22 \<notin> set url" "CHR ''>'' \<notin> set tail"
    by (rule is_img_tagE)
  note ss = src_head [OF t(5)]
  let ?y = "sr @ url @ CHR 0x22 # tail @ CHR ''>'' # b"
  have tb: "t @ b = h @ c0 # pre @ ?y" using t(1) by simp
  have "ci_prefix src_eq ?y" unfolding ci_prefix_src using t(5) ss(1) by simp
  moreover have "after_src (drop 5 ?y) \<noteq> None"
    using after_src_complete [OF t(6,7,8), of b] ss(1) by simp
  ultimately have "last_src (pre @ ?y) \<noteq> None" using t(4) by (intro last_src_complete)
  then show ?thesis unfolding tb using t(2,3) by (intro match_here_body)
qed


lemma after_src_ok:
  assumes "url \<noteq> []" "CHR 0x22 \<notin> set url" "CHR ''>'' \<in> set r"
  shows "after_src (url @ CHR 0x22 # r) \<noteq> None"
proof -
  have 1: "takeWhile (\<lambda>c. c \<noteq> CHR 0x22) (url @ CHR 0x22 # r) = url"
    using assms(2) by (rule takeWhile_until)
  have 2: "dropWhile (\<lambda>c. c \<noteq> CHR 0x22) (url @ CHR 0x22 # r) = CHR 0x22 # r"
    using assms(2) by (rule dropWhile_until)
  have 3: "dropWhile (\<lambda>c. c \<noteq> CHR ''>'') r \<noteq> []"
    using assms(3) by (simp add: dropWhile_eq_Nil_conv)
  show ?thesis
    unfolding after_src_def Let_def 1 2 using assms(1) 3 by simp
qed

lemma tag_quote_split:
  assumes "is_img_tag t"
  obtains q1 q2 where "t = q1 @ CHR 0x22 # q2" "q1 \<noteq> []" "CHR 0x22 \<notin> set q1" "CHR ''>'' \<in> set q2"
proof -
  from assms obtain h c0 pre sr url tail where
    t: "t = h @ c0 # pre @ sr @ url @ CHR 0x22 # tail @ [CHR ''>'']"
       "map ascii_lower h = ''<img''"
    by (rule is_img_tagE)
  note hh = img_head [OF t(2)]
  let ?q = "\<lambda>c. c \<noteq> CHR 0x22"
  define q1 where "q1 = takeWhile ?q t"
  define d where "d = dropWhile ?q t"
  have td: "t = q1 @ d" by (simp add: q1_def d_def)
  have "CHR 0x22 \<in> set t" unfolding t(1) by simp
  then have "d \<noteq> []" unfolding d_def by (simp add: dropWhile_eq_Nil_conv)
  moreover have "hd d = CHR 0x22" using \<open>d \<noteq> []\<close> hd_dropWhile [of ?q t] unfolding d_def by auto
  ultimately obtain q2 where d: "d = CHR 0x22 # q2" by (cases d) auto
  have tq: "t = q1 @ CHR 0x22 # q2" using td d by simp
  have hdt: "hd t = hd h" unfolding t(1) using hh(5) by simp
  have "hd h \<in> set h" using hh(5) by simp
  then have "hd t \<noteq> CHR 0x22" using hh(3) hdt by auto
  then have q1ne: "q1 \<noteq> []"
  proof (cases q1)
    case Nil
    then have "hd t = CHR 0x22" using tq by simp
    with \<open>hd t \<noteq> CHR 0x22\<close> show ?thesis by simp
  qed simp
  have nq: "CHR 0x22 \<notin> set q1" unfolding q1_def using set_takeWhileD [of _ ?q t] by auto
  have lt: "last t = CHR ''>''" unfolding t(1) by simp
  have "q2 \<noteq> []"
  proof
    assume "q2 = []"
    then have "last t = CHR 0x22" using tq by simp
    with lt show False by simp
  qed
  then have "last q2 = CHR ''>''" using lt tq by simp
  then have "CHR ''>'' \<in> set q2" using \<open>q2 \<noteq> []\<close> last_in_set by metis
  with tq q1ne nq show ?thesis by (rule that)
qed

lemma tag_has_gt: "is_img_tag t \<Longrightarrow> CHR ''>'' \<in> set t"
  by (erule is_img_tagE) simp


lemma split_after_prefix:
  assumes "u @ v = p @ body" "length p \<le> length u"
  shows "\<exists>u'. u = p @ u' \<and> u' @ v = body"
proof -
  have "take (length p) (u @ v) = p" unfolding assms(1) by simp
  then have 1: "take (length p) u = p" using assms(2) by simp
  have "drop (length p) (u @ v) = body" unfolding assms(1) by simp
  then have 2: "drop (length p) u @ v = body" using assms(2) by simp
  have "u = take (length p) u @ drop (length p) u" by simp
  then have "u = p @ drop (length p) u" unfolding 1 .
  with 2 show ?thesis by (intro exI conjI)
qed

lemma split_within_prefix:
  assumes "u @ v = p @ body" "length u \<le> length p"
  shows "\<exists>w. p = u @ w \<and> v = w @ body"
proof -
  have "\<exists>w. p = u @ w \<and> w @ body = v"
    by (rule split_after_prefix [OF assms(1) [symmetric] assms(2)])
  then show ?thesis by metis
qed

lemma bracket_after_head:
  assumes "u @ v = p @ body" "v \<noteq> []" "hd v \<notin> set p"
  shows "\<exists>u'. u = p @ u' \<and> u' @ v = body"
proof (rule split_after_prefix [OF assms(1)])
  show "length p \<le> length u"
  proof (rule ccontr)
    assume "\<not> length p \<le> length u"
    then have l: "length u \<le> length p" by simp
    from split_within_prefix [OF assms(1) l] obtain w where w: "p = u @ w" "v = w @ body" by blast
    have "w \<noteq> []" using w(1) \<open>\<not> length p \<le> length u\<close> by auto
    then have "hd v = hd w" "hd w \<in> set w" using w(2) by simp_all
    then have "hd v \<in> set p" unfolding w(1) by simp
    with assms(3) show False by simp
  qed
qed


lemma src_from_next_tag:
  assumes "CHR ''>'' \<notin> set u'" "is_img_tag t"
  shows "last_src (u' @ t @ b) \<noteq> None"
proof -
  from assms(2) obtain h1 c1 pre1 sr1 url1 tail1 where
    q: "t = h1 @ c1 # pre1 @ sr1 @ url1 @ CHR 0x22 # tail1 @ [CHR ''>'']"
       "map ascii_lower h1 = ''<img''" "is_space c1" "CHR ''>'' \<notin> set pre1"
       "map ascii_lower sr1 = src_eq" "url1 \<noteq> []" "CHR 0x22 \<notin> set url1" "CHR ''>'' \<notin> set tail1"
    by (rule is_img_tagE)
  note hh1 = img_head [OF q(2)] and ss1 = src_head [OF q(5)]
  let ?pre = "u' @ h1 @ c1 # pre1"
  let ?y = "sr1 @ url1 @ CHR 0x22 # tail1 @ CHR ''>'' # b"
  have e: "u' @ t @ b = ?pre @ ?y" unfolding q(1) by simp
  have c1: "c1 \<noteq> CHR ''>''" using q(3) by auto
  have g: "CHR ''>'' \<notin> set ?pre" using assms(1) hh1(2) c1 q(4) by simp
  have c: "ci_prefix src_eq ?y" unfolding ci_prefix_src using q(5) ss1(1) by simp
  have a: "after_src (drop 5 ?y) \<noteq> None"
    using after_src_complete [OF q(6,7,8), of b] ss1(1) by simp
  show ?thesis unfolding e using g c a by (rule last_src_complete)
qed

lemma after_src_into_tag:
  assumes "w @ v = url @ CHR 0x22 # tail" "v \<noteq> []" "url \<noteq> []" "CHR 0x22 \<notin> set url"
    and "is_img_tag t"
  shows "after_src (w @ t @ b) \<noteq> None"
proof -
  from assms(5) obtain q1 q2 where
    tq: "t = q1 @ CHR 0x22 # q2" "q1 \<noteq> []" "CHR 0x22 \<notin> set q1" "CHR ''>'' \<in> set q2"
    by (rule tag_quote_split)
  show ?thesis
  proof (cases "length w \<le> length url")
    case True
    from split_within_prefix [OF assms(1) True] obtain z where z: "url = w @ z" by blast
    have "set w \<subseteq> set url" unfolding z by simp
    then have nq: "CHR 0x22 \<notin> set (w @ q1)" using assms(4) tq(3) by auto
    have ne: "w @ q1 \<noteq> []" using tq(2) by simp
    have gt: "CHR ''>'' \<in> set (q2 @ b)" using tq(4) by simp
    have e: "w @ t @ b = (w @ q1) @ CHR 0x22 # (q2 @ b)" unfolding tq(1) by simp
    show ?thesis unfolding e using ne nq gt by (rule after_src_ok)
  next
    case False
    then have l: "length url \<le> length w" by simp
    from split_after_prefix [OF assms(1) l] obtain z where
      z: "w = url @ z" "z @ v = CHR 0x22 # tail" by blast
    have "z \<noteq> []" using z(1) False by auto
    then obtain z0 z' where zz: "z = z0 # z'" by (cases z) auto
    then have "z0 = CHR 0x22" using z(2) by simp
    then have w: "w = url @ CHR 0x22 # z'" using z(1) zz by simp
    have gt: "CHR ''>'' \<in> set (z' @ t @ b)" using tag_has_gt [OF assms(5)] by simp
    have e: "w @ t @ b = url @ CHR 0x22 # (z' @ t @ b)" unfolding w by simp
    show ?thesis unfolding e using assms(3,4) gt by (rule after_src_ok)
  qed
qed

lemma tag_extends:
  assumes t': "is_img_tag t'" and uv: "t' = u @ v" and v: "v \<noteq> []" "hd v = CHR ''[''"
    and t: "is_img_tag t"
  shows "match_here (u @ t @ b) \<noteq> None"
proof -
  from t' obtain h c0 pre sr url tail where
    p: "t' = h @ c0 # pre @ sr @ url @ CHR 0x22 # tail @ [CHR ''>'']"
       "map ascii_lower h = ''<img''" "is_space c0" "CHR ''>'' \<notin> set pre"
       "map ascii_lower sr = src_eq" "url \<noteq> []" "CHR 0x22 \<notin> set url" "CHR ''>'' \<notin> set tail"
    by (rule is_img_tagE)
  note hh = img_head [OF p(2)] and ss = src_head [OF p(5)]
  define after where "after = url @ CHR 0x22 # tail @ [CHR ''>'']"
  have eq1: "u @ v = (h @ [c0]) @ ((pre @ sr) @ after)"
    unfolding uv [symmetric] p(1) after_def by simp
  have c0: "c0 \<noteq> CHR ''[''" using p(3) by auto
  have nb: "hd v \<notin> set (h @ [c0])" unfolding v(2) using hh(4) c0 by simp
  from bracket_after_head [OF eq1 v(1) nb] obtain u' where
    u': "u = (h @ [c0]) @ u'" and eq2: "u' @ v = (pre @ sr) @ after" by blast
  have "last_src (u' @ t @ b) \<noteq> None"
  proof (cases "length u' \<le> length (pre @ sr)")
    case True
    from split_within_prefix [OF eq2 True] obtain w where w: "pre @ sr = u' @ w" by blast
    have "set u' \<subseteq> set (pre @ sr)" unfolding w by simp
    then have "CHR ''>'' \<notin> set u'" using p(4) ss(2) by auto
    then show ?thesis using t by (rule src_from_next_tag)
  next
    case False
    then have l: "length (pre @ sr) \<le> length u'" by simp
    from split_after_prefix [OF eq2 l] obtain w where
      w: "u' = (pre @ sr) @ w" "w @ v = after" by blast
    let ?y = "sr @ w @ t @ b"
    have e: "u' @ t @ b = pre @ ?y" unfolding w(1) by simp
    have c: "ci_prefix src_eq ?y" unfolding ci_prefix_src using p(5) ss(1) by simp
    have d: "drop 5 ?y = w @ t @ b" using ss(1) by simp
    have wv: "w @ v = url @ CHR 0x22 # (tail @ [CHR ''>''])" using w(2) by (simp add: after_def)
    have "after_src (w @ t @ b) \<noteq> None"
      using wv v(1) p(6,7) t by (rule after_src_into_tag)
    then have a: "after_src (drop 5 ?y) \<noteq> None" unfolding d .
    show ?thesis unfolding e using p(4) c a by (rule last_src_complete)
  qed
  with p(2,3) have "match_here (h @ c0 # (u' @ t @ b)) \<noteq> None" by (rule match_here_body)
  then show ?thesis unfolding u' by simp
qed


lemma substitution_plain:
  "CHR ''$'' \<notin> set ph \<Longrightarrow> substitution ph matched before after = ph"
  by (induction ph matched before after rule: substitution.induct) auto

lemma index_of_prefix: "index_of (t @ r) t = Some 0"
proof (cases "t @ r")
  case Nil
  then show ?thesis by simp
next
  case (Cons a l)
  have "take (length t) (t @ r) = t" by simp
  then have "take (length t) (a # l) = t" unfolding Cons .
  then have "index_of (a # l) t = Some 0" by simp
  then show ?thesis unfolding Cons .
qed

lemma index_of_first:
  assumes "\<forall>x<length A. take (length t) (drop x (A @ t @ r)) \<noteq> t"
  shows "index_of (A @ t @ r) t = Some (length A)"
  using assms
proof (induction A)
  case Nil
  show ?case unfolding append_Nil list.size by (rule index_of_prefix)
next
  case (Cons a A)
  have 0: "take (length t) ((a # A) @ t @ r) \<noteq> t" using Cons.prems by force
  have "\<forall>x<length A. take (length t) (drop x (A @ t @ r)) \<noteq> t"
  proof (intro allI impI)
    fix x assume "x < length A"
    then have "Suc x < length (a # A)" by simp
    with Cons.prems have "take (length t) (drop (Suc x) ((a # A) @ t @ r)) \<noteq> t" by blast
    then show "take (length t) (drop x (A @ t @ r)) \<noteq> t" by simp
  qed
  from Cons.IH [OF this] show ?case using 0 by simp
qed

lemma js_replace_first:
  assumes "\<forall>x<length A. take (length t) (drop x (A @ t @ r)) \<noteq> t" "CHR ''$'' \<notin> set ph"
  shows "js_replace (A @ t @ r) t ph = A @ ph @ r"
  unfolding js_replace_def index_of_first [OF assms(1)]
  by (simp add: Let_def substitution_plain [OF assms(2)])

lemma occurrence_is_match:
  assumes "is_img_tag t" "take (length t) s = t"
  shows "match_here s \<noteq> None"
proof -
  have "s = t @ drop (length t) s" using assms(2) by (metis append_take_drop_id)
  then obtain b where "s = t @ b" ..
  then show ?thesis using match_here_complete [OF assms(1)] by simp
qed

lemma ascii_lower_lt: "ascii_lower c = CHR ''<'' \<Longrightarrow> c = CHR ''<''"
proof (rule ccontr)
  assume l: "ascii_lower c = CHR ''<''" and n: "c \<noteq> CHR ''<''"
  then have "ascii_lower c \<noteq> c" by auto
  then obtain x where "map_of (zip ''ABCDEFGHIJKLMNOPQRSTUVWXYZ'' ''abcdefghijklmnopqrstuvwxyz'') c = Some x"
      "ascii_lower c = x"
    by (auto simp add: ascii_lower_def split: option.splits)
  then have "CHR ''<'' \<in> set ''abcdefghijklmnopqrstuvwxyz''"
    using l by (metis map_of_SomeD set_zip_rightD)
  then show False by simp
qed

lemma match_here_head:
  assumes "match_here y \<noteq> None"
  shows "y \<noteq> [] \<and> hd y = CHR ''<''"
proof -
  from assms have c: "ci_prefix ''<img'' y" unfolding match_here_def by (metis)
  then have l: "4 \<le> length y" and m: "map ascii_lower (take 4 y) = ''<img''"
    unfolding ci_prefix_img by simp_all
  from l have ne: "y \<noteq> []" by auto
  then have "hd (map ascii_lower (take 4 y)) = ascii_lower (hd y)"
    by (cases y) simp_all
  then have "ascii_lower (hd y) = CHR ''<''" unfolding m by simp
  then show ?thesis using ne ascii_lower_lt by simp
qed


lemma img_matches_None: "match_here (c # s) = None \<Longrightarrow> img_matches (c # s) = img_matches s"
  by (simp add: img_matches.simps)

lemma img_matches_Some:
  "match_here (c # s) = Some (tag, url, rest) \<Longrightarrow> img_matches (c # s) = (tag, url) # img_matches rest"
  by (simp add: img_matches.simps)

lemma spliced_None: "match_here (c # s) = None \<Longrightarrow> spliced (c # s) phs = c # spliced s phs"
  by (simp add: spliced.simps)

lemma spliced_Some:
  "match_here (c # s) = Some (tag, url, rest) \<Longrightarrow> spliced (c # s) (ph # phs) = ph @ spliced rest phs"
  by (simp add: spliced.simps)

lemma no_match_in_plain:
  assumes "CHR ''<'' \<notin> set ph" "x < length ph"
  shows "match_here (drop x ph @ rest) = None"
proof (rule ccontr)
  assume "match_here (drop x ph @ rest) \<noteq> None"
  from match_here_head [OF this] have h: "hd (drop x ph @ rest) = CHR ''<''" by simp
  have ne: "drop x ph \<noteq> []" using assms(2) by simp
  then have "hd (drop x ph @ rest) = hd (drop x ph)" by simp
  moreover have "hd (drop x ph) \<in> set (drop x ph)" using ne by simp
  moreover have "set (drop x ph) \<subseteq> set ph" by (rule set_drop_subset)
  ultimately show False using h assms(1) by auto
qed

lemma no_match_before_placeholder:
  assumes none: "match_here (u @ tag @ rest) = None"
    and tag: "is_img_tag tag"
    and ph: "ph \<noteq> []" "hd ph = CHR ''[''"
  shows "match_here (u @ ph @ rest) = None"
proof (rule ccontr)
  assume "match_here (u @ ph @ rest) \<noteq> None"
  then obtain t' url' r' where m: "match_here (u @ ph @ rest) = Some (t', url', r')"
    by (cases "match_here (u @ ph @ rest)") auto
  from match_here_sound [OF m] have e: "t' @ r' = u @ (ph @ rest)" and t': "is_img_tag t'"
    by simp_all
  show False
  proof (cases "length t' \<le> length u")
    case True
    from split_within_prefix [OF e True] obtain w where w: "u = t' @ w" by blast
    have "u @ tag @ rest = t' @ (w @ tag @ rest)" unfolding w by simp
    then have "match_here (u @ tag @ rest) \<noteq> None"
      using match_here_complete [OF t'] by simp
    with none show False by simp
  next
    case False
    then have l: "length u \<le> length t'" by simp
    from split_after_prefix [OF e l] obtain v where v: "t' = u @ v" "v @ r' = ph @ rest" by blast
    have vne: "v \<noteq> []" using v(1) False by auto
    have "hd (v @ r') = hd (ph @ rest)" unfolding v(2) ..
    then have hv: "hd v = CHR ''[''" using vne ph by simp
    from tag_extends [OF t' v(1) vne hv tag] have "match_here (u @ tag @ rest) \<noteq> None" .
    with none show False by simp
  qed
qed


lemma replace_all_Nil [simp]: "replace_all html [] = html"
  by (simp add: replace_all_def)

lemma replace_all_Cons [simp]:
  "replace_all html ((tag, ph) # pairs) = replace_all (js_replace html tag ph) pairs"
  by (simp add: replace_all_def)

lemma replace_all_spliced:
  assumes "\<forall>x<length A. match_here (drop x (A @ s)) = None"
    and "\<forall>ph\<in>set phs. plain ph \<and> ph \<noteq> [] \<and> hd ph = CHR ''[''"
    and "length phs = length (img_matches s)"
  shows "replace_all (A @ s) (zip (map fst (img_matches s)) phs) = A @ spliced s phs"
  using assms
proof (induction s arbitrary: A phs rule: img_matches.induct)
  case 1
  then show ?case by simp
next
  case (2 c s)
  show ?case
  proof (cases "match_here (c # s)")
    case None
    have inv: "\<forall>x<length (A @ [c]). match_here (drop x ((A @ [c]) @ s)) = None"
    proof (intro allI impI)
      fix x assume "x < length (A @ [c])"
      then have "x < length A \<or> x = length A" by auto
      then show "match_here (drop x ((A @ [c]) @ s)) = None"
      proof
        assume "x < length A"
        with "2.prems"(1) show ?thesis by simp
      next
        assume "x = length A"
        then show ?thesis using None by simp
      qed
    qed
    have len: "length phs = length (img_matches s)"
      using "2.prems"(3) unfolding img_matches_None [OF None] .
    from "2.IH"(1) [OF None inv "2.prems"(2) len]
    have "replace_all ((A @ [c]) @ s) (zip (map fst (img_matches s)) phs) = (A @ [c]) @ spliced s phs" .
    then show ?thesis
      unfolding img_matches_None [OF None] spliced_None [OF None] by simp
  next
    case (Some m)
    obtain tag url rest where m: "m = (tag, url, rest)" by (cases m) auto
    note S = Some [unfolded m]
    from match_here_sound [OF S] have e: "c # s = tag @ rest" and tag: "is_img_tag tag" by simp_all
    have im: "img_matches (c # s) = (tag, url) # img_matches rest" by (rule img_matches_Some [OF S])
    from "2.prems"(3) obtain ph phs' where phs: "phs = ph # phs'"
      unfolding im by (cases phs) auto
    have len: "length phs' = length (img_matches rest)"
      using "2.prems"(3) unfolding im phs by simp
    have ph: "plain ph" "ph \<noteq> []" "hd ph = CHR ''[''" using "2.prems"(2) unfolding phs by simp_all
    have clean: "\<forall>ph\<in>set phs'. plain ph \<and> ph \<noteq> [] \<and> hd ph = CHR ''[''"
      using "2.prems"(2) unfolding phs by simp
    have none: "\<forall>x<length A. match_here (drop x (A @ tag @ rest)) = None"
      using "2.prems"(1) unfolding e .
    have first: "\<forall>x<length A. take (length tag) (drop x (A @ tag @ rest)) \<noteq> tag"
    proof (intro allI impI notI)
      fix x assume x: "x < length A" and "take (length tag) (drop x (A @ tag @ rest)) = tag"
      from occurrence_is_match [OF tag this(2)] none x show False by simp
    qed
    have rep: "js_replace (A @ tag @ rest) tag ph = A @ ph @ rest"
      using first ph(1) unfolding plain_def by (intro js_replace_first) simp_all
    have inv: "\<forall>x<length (A @ ph). match_here (drop x ((A @ ph) @ rest)) = None"
    proof (intro allI impI)
      fix x assume "x < length (A @ ph)"
      then consider "x < length A" | "length A \<le> x" "x - length A < length ph" by fastforce
      then show "match_here (drop x ((A @ ph) @ rest)) = None"
      proof cases
        case 1
        then have d: "drop x ((A @ ph) @ rest) = drop x A @ ph @ rest" by simp
        have d': "drop x (A @ tag @ rest) = drop x A @ tag @ rest" using 1 by simp
        have "match_here (drop x A @ tag @ rest) = None" using none 1 d' by metis
        from no_match_before_placeholder [OF this tag ph(2,3)] show ?thesis unfolding d .
      next
        case 2
        then have d: "drop x ((A @ ph) @ rest) = drop (x - length A) ph @ rest" by simp
        have "CHR ''<'' \<notin> set ph" using ph(1) by (simp add: plain_def)
        from no_match_in_plain [OF this 2(2)] show ?thesis unfolding d .
      qed
    qed
    from "2.IH"(2) [OF S refl refl inv clean len]
    have ih: "replace_all ((A @ ph) @ rest) (zip (map fst (img_matches rest)) phs') = (A @ ph) @ spliced rest phs'" .
    have "replace_all (A @ c # s) (zip (map fst (img_matches (c # s))) phs)
        = replace_all (js_replace (A @ tag @ rest) tag ph) (zip (map fst (img_matches rest)) phs')"
      unfolding im phs by (simp add: e)
    also have "\<dots> = A @ ph @ spliced rest phs'" unfolding rep using ih by simp
    also have "\<dots> = A @ spliced (c # s) phs" unfolding phs spliced_Some [OF S] ..
    finally show ?thesis .
  qed
qed


text \<open>The index: below \<open>2^53\<close> the increment is the successor, and at \<open>2^53\<close> it stays.\<close>

lemma increment_small: "n < 2 ^ 53 \<Longrightarrow> increment n = Suc n"
proof -
  assume "n < 2 ^ 53"
  then have "Suc n \<le> 2 ^ 53" by simp
  from fl_nat [OF this] have "fl (real n + 1) = real (Suc n)" by (simp add: add.commute)
  then show ?thesis unfolding increment_def by simp
qed

lemma increment_at_limit: "increment (2 ^ 53) = 2 ^ 53"
  by (simp add: increment_def fl_eval)

lemma replace_images_eq:
  "k + length ms \<le> 2 ^ 53 \<Longrightarrow>
   replace_images lib ms k html imgs =
     (replace_all html (zip (map fst ms) (map placeholderText (filenames lib ms k))),
      imgs @ map (\<lambda>(u, f). \<lparr>image_url = he_decode lib u, image_filename = f\<rparr>)
                 (zip (map snd ms) (filenames lib ms k)),
      k + length ms)"
proof (induction ms arbitrary: k html imgs)
  case Nil
  then show ?case by simp
next
  case (Cons m ms)
  obtain tag url where m: "m = (tag, url)" by (cases m) auto
  have k: "increment k = Suc k" using Cons.prems by (intro increment_small) simp
  have "Suc k + length ms \<le> 2 ^ 53" using Cons.prems by simp
  from Cons.IH [OF this] show ?case unfolding m by (simp add: Let_def k)
qed

lemma length_filenames [simp]: "length (filenames lib ms k) = length ms"
  by (induction ms arbitrary: k) auto

lemma filenames_nth:
  "i < length ms \<Longrightarrow>
     filenames lib ms k ! i = sequentialFilename (k + i) (extension_of lib (he_decode lib (snd (ms ! i))))"
proof (induction ms arbitrary: k i)
  case Nil
  then show ?case by simp
next
  case (Cons m ms)
  obtain tag url where m: "m = (tag, url)" by (cases m) auto
  show ?case using Cons unfolding m by (cases i) auto
qed

lemma filenames_eq:
  "filenames lib ms k =
     map (\<lambda>i. sequentialFilename (k + i) (extension_of lib (he_decode lib (snd (ms ! i))))) [0..<length ms]"
  by (rule nth_equalityI) (simp_all add: filenames_nth)

lemma placeholder_facts:
  "placeholderText f \<noteq> []" "hd (placeholderText f) = CHR ''[''"
  "plain (placeholderText f) = plain f"
  by (auto simp add: placeholderText_def plain_def)


lemma extract_string:
  assumes "k + length (img_matches s) \<le> 2 ^ 53"
  shows "extractInlineImages lib (JStr s) k =
     \<lparr>modifiedHtml = JStr (replace_all s (zip (map fst (img_matches s))
                               (map placeholderText (filenames lib (img_matches s) k)))),
      extractedImages = map (\<lambda>(u, f). \<lparr>image_url = he_decode lib u, image_filename = f\<rparr>)
                            (zip (map snd (img_matches s)) (filenames lib (img_matches s) k)),
      nextIndex = k + length (img_matches s)\<rparr>"
proof (cases "s = []")
  case True
  then show ?thesis by (simp add: extractInlineImages_def)
next
  case False
  then show ?thesis by (simp add: extractInlineImages_def replace_images_eq [OF assms])
qed

lemma extracted_filenames:
  "k + length (img_matches s) \<le> 2 ^ 53 \<Longrightarrow>
   map image_filename (extractedImages (extractInlineImages lib (JStr s) k)) = filenames lib (img_matches s) k"
  by (simp add: extract_string) (rule nth_equalityI, simp_all)

lemma extracted_urls:
  "k + length (img_matches s) \<le> 2 ^ 53 \<Longrightarrow>
   map image_url (extractedImages (extractInlineImages lib (JStr s) k))
     = map (\<lambda>m. he_decode lib (snd m)) (img_matches s)"
  by (simp add: extract_string) (rule nth_equalityI, simp_all)

text \<open>
  What the extraction does away from the defect shown below, for an index that stays
  within the integers a double counts exactly. For \<open>htmlContent\<close> that is not a string
  the result is the original value, or the empty string when the value is falsy, with no
  image and \<open>nextIndex = startIndex\<close>. For a string with \<open>n\<close> matches of the image
  expression, \<open>nextIndex = startIndex + n\<close>, and the images are named \<open>image k.ext\<close> with \<open>k\<close>
  running from \<open>startIndex\<close> in the order of the matches, \<open>ext\<close> being the extension found
  for the decoded source of the match, which is also the image's url. When no file name
  so produced contains a dollar sign or an opening angle bracket, the returned html is
  the input with every matched tag replaced, where it stands, by its placeholder.
\<close>

lemma extraction_with_plain_names:
  assumes "k + length (img_matches s) \<le> 2 ^ 53"
  shows "((\<forall>s. htmlContent \<noteq> JStr s) \<longrightarrow>
       extractInlineImages lib htmlContent k =
         \<lparr>modifiedHtml = (if falsy htmlContent then JStr [] else htmlContent),
          extractedImages = [], nextIndex = k\<rparr>)
   \<and> nextIndex (extractInlineImages lib (JStr s) k) = k + length (img_matches s)
   \<and> map image_filename (extractedImages (extractInlineImages lib (JStr s) k))
       = map (\<lambda>i. sequentialFilename (k + i)
                     (extension_of lib (he_decode lib (snd (img_matches s ! i)))))
             [0..<length (img_matches s)]
   \<and> map image_url (extractedImages (extractInlineImages lib (JStr s) k))
       = map (\<lambda>m. he_decode lib (snd m)) (img_matches s)
   \<and> ((\<forall>img \<in> set (extractedImages (extractInlineImages lib (JStr s) k)). plain (image_filename img))
        \<longrightarrow> modifiedHtml (extractInlineImages lib (JStr s) k)
            = JStr (spliced s (map (\<lambda>img. placeholderText (image_filename img))
                                   (extractedImages (extractInlineImages lib (JStr s) k)))))"
proof (intro conjI impI)
  assume "\<forall>s. htmlContent \<noteq> JStr s"
  then show "extractInlineImages lib htmlContent k =
         \<lparr>modifiedHtml = (if falsy htmlContent then JStr [] else htmlContent),
          extractedImages = [], nextIndex = k\<rparr>"
    by (cases htmlContent) (simp_all add: extractInlineImages_def)
next
  show "nextIndex (extractInlineImages lib (JStr s) k) = k + length (img_matches s)"
    by (simp add: extract_string [OF assms])
next
  show "map image_filename (extractedImages (extractInlineImages lib (JStr s) k))
       = map (\<lambda>i. sequentialFilename (k + i)
                     (extension_of lib (he_decode lib (snd (img_matches s ! i)))))
             [0..<length (img_matches s)]"
    unfolding extracted_filenames [OF assms] by (rule filenames_eq)
next
  show "map image_url (extractedImages (extractInlineImages lib (JStr s) k))
       = map (\<lambda>m. he_decode lib (snd m)) (img_matches s)"
    by (rule extracted_urls [OF assms])
next
  let ?r = "extractInlineImages lib (JStr s) k"
  let ?fs = "filenames lib (img_matches s) k"
  assume a: "\<forall>img \<in> set (extractedImages ?r). plain (image_filename img)"
  have names: "map image_filename (extractedImages ?r) = ?fs" by (rule extracted_filenames [OF assms])
  have "\<forall>f \<in> set ?fs. plain f"
  proof
    fix f assume "f \<in> set ?fs"
    then have "f \<in> image_filename ` set (extractedImages ?r)" unfolding names [symmetric] by simp
    then show "plain f" using a by auto
  qed
  then have clean: "\<forall>ph\<in>set (map placeholderText ?fs). plain ph \<and> ph \<noteq> [] \<and> hd ph = CHR ''[''"
    by (auto simp add: placeholder_facts)
  have len: "length (map placeholderText ?fs) = length (img_matches s)" by simp
  have inv: "\<forall>x<length ([]::string). match_here (drop x ([] @ s)) = None" by simp
  from replace_all_spliced [OF inv clean len]
  have "replace_all s (zip (map fst (img_matches s)) (map placeholderText ?fs))
          = spliced s (map placeholderText ?fs)" by simp
  moreover have "map (\<lambda>img. placeholderText (image_filename img)) (extractedImages ?r)
          = map placeholderText ?fs"
    unfolding names [symmetric] by simp
  ultimately show "modifiedHtml ?r = JStr (spliced s (map (\<lambda>img. placeholderText (image_filename img))
                                   (extractedImages ?r)))"
    by (simp add: extract_string [OF assms])
qed

lemmas rx_defs = match_here_def ci_prefix_def ascii_lower_def src_eq_def dq_def is_space_def after_src_def

lemmas ext_defs = extension_of_def extension_from_def after_last_def js_lower_def
  dot_extension_def name_char_def image_extensions_def lookahead_ok_def web_def

text \<open>An html with two images, extracted from index 3: both tags are replaced where they stand.\<close>

lemma two_images_extraction:
  "extractInlineImages web (JStr two_images_html) 3 =
     \<lparr>modifiedHtml = JStr ''a[Inline image: image 3.gif]b[Inline image: image 4.png]c'',
      extractedImages = [\<lparr>image_url = ''https://cdn.test/x.gif'', image_filename = ''image 3.gif''\<rparr>,
                         \<lparr>image_url = ''v'', image_filename = ''image 4.png''\<rparr>],
      nextIndex = 5\<rparr>"
  by (simp add: extractInlineImages_def two_images_html_def img_matches.simps rx_defs ext_defs
      js_replace_def sequentialFilename_def placeholderText_def string_of_nat.simps digit_char_def
      increment_small)

lemma dollar_matches:
  "img_matches dollar_html =
     [(''<img src='' @ dq @ ''https://cdn.test/x.$&'' @ dq @ ''>'', ''https://cdn.test/x.$&'')]"
  by (simp add: dollar_html_def img_matches.simps rx_defs)

lemma dollar_spliced:
  "spliced dollar_html [placeholderText ''image 1.$&''] = ''a[Inline image: image 1.$&]b''"
  by (simp add: dollar_html_def spliced.simps rx_defs placeholderText_def)

text \<open>
  Claim C10 on the code. In the html \<open>a<img src="https://cdn.test/x.$&">b\<close> one tag is
  matched; its source has the path \<open>/x.$&\<close>, so the extension is \<open>$&\<close>, the image is named
  \<open>image 1.$&\<close> and the placeholder is \<open>[Inline image: image 1.$&]\<close>. The placeholder is
  handed to \<open>String.prototype.replace\<close> as the replacement text, in which \<open>$&\<close> stands for
  the matched text: the tag is put back inside the brackets. The returned html still
  holds the tag, it is not the html with the tag replaced by the placeholder, and the
  placeholder, which the caller then looks for with \<open>indexOf\<close>, does not occur in it. The
  image list and \<open>nextIndex\<close> are as claimed.
\<close>

theorem C10_dollar_extension_keeps_tag:
  "url_pathname web ''https://cdn.test/x.$&'' = Some ''/x.$&''
   \<and> extractInlineImages web (JStr dollar_html) 1 =
       \<lparr>modifiedHtml = JStr (''a[Inline image: image 1.<img src='' @ dq @ ''https://cdn.test/x.$&''
                              @ dq @ ''>]b''),
        extractedImages = [\<lparr>image_url = ''https://cdn.test/x.$&'', image_filename = ''image 1.$&''\<rparr>],
        nextIndex = 2\<rparr>
   \<and> placeholderText ''image 1.$&'' = ''[Inline image: image 1.$&]''
   \<and> index_of (''a[Inline image: image 1.<img src='' @ dq @ ''https://cdn.test/x.$&'' @ dq @ ''>]b'')
         (placeholderText ''image 1.$&'') = None
   \<and> modifiedHtml (extractInlineImages web (JStr dollar_html) 1) \<noteq> JStr ''a[Inline image: image 1.$&]b''"
proof -
  have e: "extractInlineImages web (JStr dollar_html) 1 =
       \<lparr>modifiedHtml = JStr (''a[Inline image: image 1.<img src='' @ dq @ ''https://cdn.test/x.$&''
                              @ dq @ ''>]b''),
        extractedImages = [\<lparr>image_url = ''https://cdn.test/x.$&'', image_filename = ''image 1.$&''\<rparr>],
        nextIndex = 2\<rparr>"
    by (simp add: extractInlineImages_def dollar_html_def img_matches.simps rx_defs ext_defs
        js_replace_def sequentialFilename_def placeholderText_def string_of_nat.simps digit_char_def
        increment_small)
  show ?thesis
    unfolding e by (simp add: web_def dq_def placeholderText_def)
qed

end
